theory Spec2Isabelle
  imports Complex_Main
begin

section \<open>Floating point numbers\<close>

text \<open>
  A Python \<^verbatim>\<open>float\<close> is an IEEE 754 double. A finite double other than the
  negative zero is kept as the rational number it is; \<open>Fin 0\<close> is the positive
  zero. Every double that the functions below build is the rational nearest to
  the exact result that has a 53 bit significand and an exponent in the range
  of a double, ties going to the even significand (\<open>round_double\<close>).
\<close>

datatype double =
    Fin rat
  | NegZero
  | PInf
  | NInf
  | NaN

definition round_half_even :: "rat \<Rightarrow> int" where
  "round_half_even q =
     (let f = \<lfloor>q\<rfloor>; d = q - of_int f
      in if d < 1 / 2 then f
         else if 1 / 2 < d then f + 1
         else if even f then f else f + 1)"

text \<open>
  The binary exponent of a positive rational, found by counting up from \<open>1\<close> or
  down from \<open>1\<close>, and kept between the least exponent of a normal double, \<open>-1022\<close>,
  and \<open>1024\<close>, where every number overflows.
\<close>

function log2_up :: "nat \<Rightarrow> rat \<Rightarrow> nat" where
  "log2_up k q = (if k < 1024 \<and> 2 ^ Suc k \<le> q then log2_up (Suc k) q else k)"
  by pat_completeness auto
termination
  by (relation "measure (\<lambda>(k, q). 1024 - k)") auto

function log2_down :: "nat \<Rightarrow> rat \<Rightarrow> nat" where
  "log2_down k q = (if k < 1022 \<and> q * 2 ^ k < 1 then log2_down (Suc k) q else k)"
  by pat_completeness auto
termination
  by (relation "measure (\<lambda>(k, q). 1022 - k)") auto

declare log2_up.simps [simp del] log2_down.simps [simp del]

definition binade :: "rat \<Rightarrow> int" where
  "binade q = (if 1 \<le> q then int (log2_up 0 q) else - int (log2_down 0 q))"

definition pow2 :: "int \<Rightarrow> rat" where
  "pow2 e = (if 0 \<le> e then 2 ^ nat e else 1 / 2 ^ nat (- e))"

text \<open>A positive rational, rounded to a multiple of the unit in the last place.\<close>

definition round_magnitude :: "rat \<Rightarrow> rat" where
  "round_magnitude q =
     (let ulp = pow2 (binade q - 52)
      in of_int (round_half_even (q / ulp)) * ulp)"

text \<open>
  Rounding to the nearest double: a magnitude that rounds to \<open>2 ^ 1024\<close> or more is
  an infinity, and one that rounds to zero is the zero of its sign.
\<close>

definition round_double :: "rat \<Rightarrow> double" where
  "round_double q =
     (if q = 0 then Fin 0
      else
        (let m = round_magnitude \<bar>q\<bar>
         in if 2 ^ 1024 \<le> m then (if q < 0 then NInf else PInf)
            else if m = 0 then (if q < 0 then NegZero else Fin 0)
            else Fin (if q < 0 then - m else m)))"

fun float_negative :: "double \<Rightarrow> bool" where
  "float_negative (Fin q) = (q < 0)"
| "float_negative NegZero = True"
| "float_negative PInf = False"
| "float_negative NInf = True"
| "float_negative NaN = False"

text \<open>The value of a finite double; both zeros have the value \<open>0\<close>.\<close>

fun float_value :: "double \<Rightarrow> rat option" where
  "float_value (Fin q) = Some q"
| "float_value NegZero = Some 0"
| "float_value PInf = None"
| "float_value NInf = None"
| "float_value NaN = None"

definition signed_zero :: "bool \<Rightarrow> double" where
  "signed_zero negative = (if negative then NegZero else Fin 0)"

definition signed_inf :: "bool \<Rightarrow> double" where
  "signed_inf negative = (if negative then NInf else PInf)"

fun float_neg :: "double \<Rightarrow> double" where
  "float_neg (Fin q) = (if q = 0 then NegZero else Fin (- q))"
| "float_neg NegZero = Fin 0"
| "float_neg PInf = NInf"
| "float_neg NInf = PInf"
| "float_neg NaN = NaN"

text \<open>
  The sum of two finite doubles that is exactly zero is the positive zero,
  unless both are the negative zero.
\<close>

definition float_add :: "double \<Rightarrow> double \<Rightarrow> double" where
  "float_add x y =
     (if x = NaN \<or> y = NaN then NaN
      else case (float_value x, float_value y) of
        (None, None) \<Rightarrow> (if x = y then x else NaN)
      | (None, Some b) \<Rightarrow> x
      | (Some a, None) \<Rightarrow> y
      | (Some a, Some b) \<Rightarrow>
          if a + b = 0 then signed_zero (x = NegZero \<and> y = NegZero)
          else round_double (a + b))"

definition float_sub :: "double \<Rightarrow> double \<Rightarrow> double" where
  "float_sub x y = float_add x (float_neg y)"

definition float_mul :: "double \<Rightarrow> double \<Rightarrow> double" where
  "float_mul x y =
     (if x = NaN \<or> y = NaN then NaN
      else
        (let negative = (float_negative x \<noteq> float_negative y)
         in case (float_value x, float_value y) of
              (None, None) \<Rightarrow> signed_inf negative
            | (None, Some b) \<Rightarrow> (if b = 0 then NaN else signed_inf negative)
            | (Some a, None) \<Rightarrow> (if a = 0 then NaN else signed_inf negative)
            | (Some a, Some b) \<Rightarrow>
                if a * b = 0 then signed_zero negative
                else round_double (a * b)))"

text \<open>Division; \<open>None\<close> when the divisor is a zero, where Python raises.\<close>

definition float_div :: "double \<Rightarrow> double \<Rightarrow> double option" where
  "float_div x y =
     (if float_value y = Some 0 then None
      else if x = NaN \<or> y = NaN then Some NaN
      else
        (let negative = (float_negative x \<noteq> float_negative y)
         in case (float_value x, float_value y) of
              (None, None) \<Rightarrow> Some NaN
            | (None, Some b) \<Rightarrow> Some (signed_inf negative)
            | (Some a, None) \<Rightarrow> Some (signed_zero negative)
            | (Some a, Some b) \<Rightarrow>
                if a = 0 then Some (signed_zero negative)
                else Some (round_double (a / b))))"

text \<open>Comparisons: a NaN is neither equal to nor below anything.\<close>

definition float_eq :: "double \<Rightarrow> double \<Rightarrow> bool" where
  "float_eq x y =
     (if x = NaN \<or> y = NaN then False
      else case (float_value x, float_value y) of
        (Some a, Some b) \<Rightarrow> a = b
      | _ \<Rightarrow> x = y)"

definition float_lt :: "double \<Rightarrow> double \<Rightarrow> bool" where
  "float_lt x y =
     (if x = NaN \<or> y = NaN then False
      else case (float_value x, float_value y) of
        (Some a, Some b) \<Rightarrow> a < b
      | _ \<Rightarrow> x \<noteq> y \<and> (x = NInf \<or> y = PInf))"

definition float_le :: "double \<Rightarrow> double \<Rightarrow> bool" where
  "float_le x y = (float_lt x y \<or> float_eq x y)"

section \<open>Values\<close>

text \<open>
  The values that \<^verbatim>\<open>evaluate\<close> of \<^verbatim>\<open>src/interpreter.py\<close> handles are Python objects:
  \<^verbatim>\<open>float\<close> (number literals), \<^verbatim>\<open>str\<close>, \<^verbatim>\<open>bool\<close>, \<^verbatim>\<open>int\<close> (Python's \<^verbatim>\<open>bool\<close> is a
  subclass of \<^verbatim>\<open>int\<close>, so \<^verbatim>\<open>True + True\<close> is the int 2) and \<^verbatim>\<open>None\<close> (what
  \<^verbatim>\<open>evaluate\<close> returns for an assignment or a print). An \<^verbatim>\<open>int\<close> is unbounded. A
  character is the code point of the same number (0 to 255).

  The limits of an interpreter's resources are not modelled: the depth of
  recursion, the memory, and the configurable bound on the digits of an \<^verbatim>\<open>int\<close>
  that is printed.
\<close>

datatype pyval =
    PFloat double
  | PInt int
  | PBool bool
  | PStr string
  | PNone

section \<open>Tokens\<close>

datatype toktype =
    INTEGER | PLUS | MINUS | MUL | DIV | LPAREN | RPAREN | EOF
  | TRUE | FALSE | AND | OR | NOT
  | EQ | NEQ | LT | GT | LE | GE
  | STRING | IDENTIFIER | ASSIGN | PRINT

text \<open>The class \<^verbatim>\<open>Token\<close>: its fields \<^verbatim>\<open>type\<close> and \<^verbatim>\<open>value\<close>.\<close>

datatype token = Token (tok_type: toktype) (tok_value: pyval)

section \<open>Errors\<close>

text \<open>
  Every failure of the source is a Python exception, caught by \<^verbatim>\<open>run_file\<close>. The
  text of a message is kept as the constructor and its arguments.
\<close>

datatype error =
    InvalidCharacter                \<comment> \<open>\<^verbatim>\<open>Exception('Invalid character')\<close>\<close>
  | UnterminatedString              \<comment> \<open>\<^verbatim>\<open>Exception('Unterminated string literal')\<close>\<close>
  | ValueError string               \<comment> \<open>raised by \<^verbatim>\<open>float(result)\<close>\<close>
  | Expected toktype token          \<comment> \<open>\<^verbatim>\<open>Exception(f'Expected {token_type}, got {self.current_token}')\<close>\<close>
  | InvalidAssignment pyval         \<comment> \<open>\<^verbatim>\<open>Exception(f'Invalid assignment: {name}')\<close>\<close>
  | UnexpectedToken token           \<comment> \<open>\<^verbatim>\<open>Exception(f"Unexpected token: {token}")\<close>\<close>
  | DivisionByZero                  \<comment> \<open>\<^verbatim>\<open>Exception("Division by zero")\<close>\<close>
  | ZeroDivisionError               \<comment> \<open>Python's own, from \<^verbatim>\<open>/\<close>\<close>
  | TypeError                       \<comment> \<open>Python's own, from an operator on unsupported operands\<close>
  | OverflowError                   \<comment> \<open>Python's own: an \<^verbatim>\<open>int\<close> too large for a \<^verbatim>\<open>float\<close> or for an index\<close>
  | OutOfFuel                       \<comment> \<open>not in the source: the recursion bound of the model\<close>

section \<open>Python's operators\<close>

text \<open>Python's \<^verbatim>\<open>bool\<close> and \<^verbatim>\<open>int\<close> as an integer.\<close>

fun as_int :: "pyval \<Rightarrow> int option" where
  "as_int (PInt i) = Some i"
| "as_int (PBool b) = Some (if b then 1 else 0)"
| "as_int (PFloat x) = None"
| "as_int (PStr s) = None"
| "as_int PNone = None"

text \<open>
  The conversion of an \<^verbatim>\<open>int\<close> to a \<^verbatim>\<open>float\<close> rounds to the nearest double and
  raises \<^verbatim>\<open>OverflowError\<close> when that is no finite double.
\<close>

definition float_of_int :: "int \<Rightarrow> error + double" where
  "float_of_int i =
     (case round_double (of_int i) of
        PInf \<Rightarrow> Inl OverflowError
      | NInf \<Rightarrow> Inl OverflowError
      | d \<Rightarrow> Inr d)"

text \<open>A number as the operand of a float operation: an \<^verbatim>\<open>int\<close> is converted.\<close>

fun as_float :: "pyval \<Rightarrow> (error + double) option" where
  "as_float (PFloat x) = Some (Inr x)"
| "as_float (PInt i) = Some (float_of_int i)"
| "as_float (PBool b) = Some (Inr (Fin (if b then 1 else 0)))"
| "as_float (PStr s) = None"
| "as_float PNone = None"

text \<open>
  A number as the operand of a comparison: Python compares an \<^verbatim>\<open>int\<close> with a
  \<^verbatim>\<open>float\<close> exactly, without converting it.
\<close>

fun as_exact :: "pyval \<Rightarrow> double option" where
  "as_exact (PFloat x) = Some x"
| "as_exact (PInt i) = Some (Fin (of_int i))"
| "as_exact (PBool b) = Some (Fin (if b then 1 else 0))"
| "as_exact (PStr s) = None"
| "as_exact PNone = None"

text \<open>Truth value testing, as \<^verbatim>\<open>not\<close>, \<^verbatim>\<open>and\<close> and \<^verbatim>\<open>or\<close> apply it.\<close>

fun truthy :: "pyval \<Rightarrow> bool" where
  "truthy (PFloat x) = (float_value x \<noteq> Some 0)"
| "truthy (PInt i) = (i \<noteq> 0)"
| "truthy (PBool b) = b"
| "truthy (PStr s) = (s \<noteq> [])"
| "truthy PNone = False"

text \<open>The kinds of value that the operators tell apart.\<close>

fun is_number :: "pyval \<Rightarrow> bool" where
  "is_number (PFloat x) = True"
| "is_number (PInt i) = True"
| "is_number (PBool b) = True"
| "is_number (PStr s) = False"
| "is_number PNone = False"

fun is_integer :: "pyval \<Rightarrow> bool" where
  "is_integer (PFloat x) = False"
| "is_integer (PInt i) = True"
| "is_integer (PBool b) = True"
| "is_integer (PStr s) = False"
| "is_integer PNone = False"

fun is_str :: "pyval \<Rightarrow> bool" where
  "is_str (PFloat x) = False"
| "is_str (PInt i) = False"
| "is_str (PBool b) = False"
| "is_str (PStr s) = True"
| "is_str PNone = False"

text \<open>
  \<^verbatim>\<open>s * n\<close> for a string and an integer: the empty string when \<^verbatim>\<open>n <= 0\<close>. On a
  64 bit build the count must fit an index, and so must the length of the
  result.
\<close>

definition str_repeat :: "string \<Rightarrow> int \<Rightarrow> error + pyval" where
  "str_repeat s n =
     (if n < - (2 ^ 63) \<or> 2 ^ 63 \<le> n then Inl OverflowError
      else if 0 < n \<and> 2 ^ 63 - 1 < int (length s) * n then Inl OverflowError
      else Inr (PStr (concat (replicate (nat n) s))))"

text \<open>String comparison: lexicographic on code points.\<close>

fun str_lt :: "string \<Rightarrow> string \<Rightarrow> bool" where
  "str_lt [] [] = False"
| "str_lt [] (y # ys) = True"
| "str_lt (x # xs) [] = False"
| "str_lt (x # xs) (y # ys) =
     (if x = y then str_lt xs ys else (of_char x :: nat) < of_char y)"

text \<open>
  A float operation on two converted operands: a conversion that raised makes
  the operation raise.
\<close>

definition float_binop ::
  "(double \<Rightarrow> double \<Rightarrow> double) \<Rightarrow> error + double \<Rightarrow> error + double \<Rightarrow> error + pyval" where
  "float_binop f x y =
     (case x of
        Inl e \<Rightarrow> Inl e
      | Inr a \<Rightarrow>
     (case y of
        Inl e \<Rightarrow> Inl e
      | Inr b \<Rightarrow> Inr (PFloat (f a b))))"

text \<open>The binary operators of Python on these values.\<close>

definition py_add :: "pyval \<Rightarrow> pyval \<Rightarrow> error + pyval" where
  "py_add l r =
     (case (as_int l, as_int r) of
        (Some a, Some b) \<Rightarrow> Inr (PInt (a + b))
      | _ \<Rightarrow>
     (case (as_float l, as_float r) of
        (Some x, Some y) \<Rightarrow> float_binop float_add x y
      | _ \<Rightarrow>
     (case (l, r) of
        (PStr a, PStr b) \<Rightarrow> Inr (PStr (a @ b))
      | _ \<Rightarrow> Inl TypeError)))"

definition py_sub :: "pyval \<Rightarrow> pyval \<Rightarrow> error + pyval" where
  "py_sub l r =
     (case (as_int l, as_int r) of
        (Some a, Some b) \<Rightarrow> Inr (PInt (a - b))
      | _ \<Rightarrow>
     (case (as_float l, as_float r) of
        (Some x, Some y) \<Rightarrow> float_binop float_sub x y
      | _ \<Rightarrow> Inl TypeError))"

definition py_mul :: "pyval \<Rightarrow> pyval \<Rightarrow> error + pyval" where
  "py_mul l r =
     (case (as_int l, as_int r) of
        (Some a, Some b) \<Rightarrow> Inr (PInt (a * b))
      | _ \<Rightarrow>
     (case (as_float l, as_float r) of
        (Some x, Some y) \<Rightarrow> float_binop float_mul x y
      | _ \<Rightarrow>
     (case (l, as_int r) of
        (PStr a, Some n) \<Rightarrow> str_repeat a n
      | _ \<Rightarrow>
     (case (as_int l, r) of
        (Some n, PStr b) \<Rightarrow> str_repeat b n
      | _ \<Rightarrow> Inl TypeError))))"

text \<open>
  True division of two integers: the quotient is rounded once, to the nearest
  double, and \<^verbatim>\<open>OverflowError\<close> is raised when that is no finite double; a zero
  quotient has the sign of the operands.
\<close>

definition int_truediv :: "int \<Rightarrow> int \<Rightarrow> error + pyval" where
  "int_truediv a b =
     (if b = 0 then Inl ZeroDivisionError
      else if a = 0 then Inr (PFloat (signed_zero (b < 0)))
      else
        (case round_double (of_int a / of_int b) of
           PInf \<Rightarrow> Inl OverflowError
         | NInf \<Rightarrow> Inl OverflowError
         | d \<Rightarrow> Inr (PFloat d)))"

text \<open>True division: the result is a float also for two integers.\<close>

definition py_truediv :: "pyval \<Rightarrow> pyval \<Rightarrow> error + pyval" where
  "py_truediv l r =
     (case (as_int l, as_int r) of
        (Some a, Some b) \<Rightarrow> int_truediv a b
      | _ \<Rightarrow>
     (case (as_float l, as_float r) of
        (Some x, Some y) \<Rightarrow>
          (case x of
             Inl e \<Rightarrow> Inl e
           | Inr a \<Rightarrow>
          (case y of
             Inl e \<Rightarrow> Inl e
           | Inr b \<Rightarrow>
          (case float_div a b of
             None \<Rightarrow> Inl ZeroDivisionError
           | Some d \<Rightarrow> Inr (PFloat d))))
      | _ \<Rightarrow> Inl TypeError))"

text \<open>
  \<^verbatim>\<open>==\<close> never raises: numbers compare by value across \<^verbatim>\<open>bool\<close>, \<^verbatim>\<open>int\<close> and \<^verbatim>\<open>float\<close>
  (so \<^verbatim>\<open>False == 0\<close>), strings by content, and values of unrelated types are unequal.
\<close>

definition py_eq :: "pyval \<Rightarrow> pyval \<Rightarrow> bool" where
  "py_eq l r =
     (case (as_exact l, as_exact r) of
        (Some a, Some b) \<Rightarrow> float_eq a b
      | _ \<Rightarrow>
     (case (l, r) of
        (PStr a, PStr b) \<Rightarrow> a = b
      | (PNone, PNone) \<Rightarrow> True
      | _ \<Rightarrow> False))"

definition py_lt :: "pyval \<Rightarrow> pyval \<Rightarrow> error + pyval" where
  "py_lt l r =
     (case (as_exact l, as_exact r) of
        (Some a, Some b) \<Rightarrow> Inr (PBool (float_lt a b))
      | _ \<Rightarrow>
     (case (l, r) of
        (PStr a, PStr b) \<Rightarrow> Inr (PBool (str_lt a b))
      | _ \<Rightarrow> Inl TypeError))"

definition py_gt :: "pyval \<Rightarrow> pyval \<Rightarrow> error + pyval" where
  "py_gt l r =
     (case (as_exact l, as_exact r) of
        (Some a, Some b) \<Rightarrow> Inr (PBool (float_lt b a))
      | _ \<Rightarrow>
     (case (l, r) of
        (PStr a, PStr b) \<Rightarrow> Inr (PBool (str_lt b a))
      | _ \<Rightarrow> Inl TypeError))"

definition py_le :: "pyval \<Rightarrow> pyval \<Rightarrow> error + pyval" where
  "py_le l r =
     (case (as_exact l, as_exact r) of
        (Some a, Some b) \<Rightarrow> Inr (PBool (float_le a b))
      | _ \<Rightarrow>
     (case (l, r) of
        (PStr a, PStr b) \<Rightarrow> Inr (PBool (\<not> str_lt b a))
      | _ \<Rightarrow> Inl TypeError))"

definition py_ge :: "pyval \<Rightarrow> pyval \<Rightarrow> error + pyval" where
  "py_ge l r =
     (case (as_exact l, as_exact r) of
        (Some a, Some b) \<Rightarrow> Inr (PBool (float_le b a))
      | _ \<Rightarrow>
     (case (l, r) of
        (PStr a, PStr b) \<Rightarrow> Inr (PBool (\<not> str_lt a b))
      | _ \<Rightarrow> Inl TypeError))"

text \<open>Unary minus: \<^verbatim>\<open>-True\<close> is the int \<^verbatim>\<open>-1\<close>.\<close>

definition py_neg :: "pyval \<Rightarrow> error + pyval" where
  "py_neg v =
     (case as_int v of
        Some a \<Rightarrow> Inr (PInt (- a))
      | None \<Rightarrow>
     (case v of
        PFloat x \<Rightarrow> Inr (PFloat (float_neg x))
      | _ \<Rightarrow> Inl TypeError))"

section \<open>The syntax tree\<close>

text \<open>
  The parser builds the tree from Python tuples tagged by a string in the first
  slot, and from bare Python objects at the leaves: \<^verbatim>\<open>factor\<close> returns
  \<^verbatim>\<open>token.value\<close> for a number, for a string literal and for an identifier, and
  \<^verbatim>\<open>True\<close> or \<^verbatim>\<open>False\<close> for the two keywords. A string literal and an identifier
  are therefore the same kind of leaf: a Python \<^verbatim>\<open>str\<close>.

  The tag of a three-element operator tuple is the operator token's value:
  \<^verbatim>\<open>'+' '-' '*' '/' '==' '!=' '<' '>' '<=' '>=' 'and' 'or'\<close>.
\<close>

datatype binop = Add | Sub | Mul | Div | Eq | Neq | Lt | Gt | Le | Ge | And | Or

datatype node =
    Leaf pyval                      \<comment> \<open>a bare \<^verbatim>\<open>float\<close>, \<^verbatim>\<open>str\<close> or \<^verbatim>\<open>bool\<close>\<close>
  | NegNode node                    \<comment> \<open>\<^verbatim>\<open>('neg', operand)\<close>\<close>
  | NotNode node                    \<comment> \<open>\<^verbatim>\<open>('not', operand)\<close>\<close>
  | AssignNode pyval node           \<comment> \<open>\<^verbatim>\<open>('assign', name, value)\<close>\<close>
  | PrintNode node                  \<comment> \<open>\<^verbatim>\<open>('print', expr)\<close>\<close>
  | BinOp binop node node           \<comment> \<open>\<^verbatim>\<open>(op, left, right)\<close>\<close>

section \<open>The lexer\<close>

text \<open>
  Python's character classes on the code points 0 to 255, as \<^verbatim>\<open>str.isspace\<close>,
  \<^verbatim>\<open>str.isdigit\<close>, \<^verbatim>\<open>str.isalpha\<close> and \<^verbatim>\<open>str.isalnum\<close> decide them.
\<close>

definition isspace :: "char \<Rightarrow> bool" where
  "isspace c =
     (let n = (of_char c :: nat)
      in (9 \<le> n \<and> n \<le> 13) \<or> (28 \<le> n \<and> n \<le> 32) \<or> n = 133 \<or> n = 160)"

definition isdigit :: "char \<Rightarrow> bool" where
  "isdigit c =
     (let n = (of_char c :: nat)
      in (48 \<le> n \<and> n \<le> 57) \<or> n = 178 \<or> n = 179 \<or> n = 185)"

definition isalpha :: "char \<Rightarrow> bool" where
  "isalpha c =
     (let n = (of_char c :: nat)
      in (65 \<le> n \<and> n \<le> 90) \<or> (97 \<le> n \<and> n \<le> 122)
         \<or> n = 170 \<or> n = 181 \<or> n = 186
         \<or> (192 \<le> n \<and> n \<le> 214) \<or> (216 \<le> n \<and> n \<le> 246) \<or> (248 \<le> n \<and> n \<le> 255))"

definition isalnum :: "char \<Rightarrow> bool" where
  "isalnum c =
     (let n = (of_char c :: nat)
      in isalpha c \<or> isdigit c \<or> (188 \<le> n \<and> n \<le> 190))"

text \<open>
  \<^verbatim>\<open>float(result)\<close> on a run of \<^verbatim>\<open>isdigit\<close> characters and dots: the run is a number
  when its characters are the digits 0 to 9 and at most one dot, with a digit
  among them; otherwise \<^verbatim>\<open>float\<close> raises \<^verbatim>\<open>ValueError\<close> (two dots, or a superscript
  digit). The number is the double nearest to the decimal, an infinity when
  the decimal is too large.
\<close>

definition is_dot :: "char \<Rightarrow> bool" where
  "is_dot c = (c = CHR ''.'')"

definition is_decimal :: "char \<Rightarrow> bool" where
  "is_decimal c = (48 \<le> (of_char c :: nat) \<and> (of_char c :: nat) \<le> 57)"

definition digits_value :: "string \<Rightarrow> nat" where
  "digits_value ds = foldl (\<lambda>a c. 10 * a + (of_char c - 48)) 0 ds"

definition py_float :: "string \<Rightarrow> error + double" where
  "py_float result =
     (if list_all (\<lambda>c. is_decimal c \<or> is_dot c) result
         \<and> length (filter is_dot result) \<le> 1
         \<and> list_ex is_decimal result
      then
        (let whole = takeWhile (\<lambda>c. \<not> is_dot c) result;
             frac = drop 1 (dropWhile (\<lambda>c. \<not> is_dot c) result)
         in Inr (round_double (of_nat (digits_value (whole @ frac)) / 10 ^ length frac)))
      else Inl (ValueError result))"

text \<open>
  The state of a \<^verbatim>\<open>Lexer\<close> is the text from \<^verbatim>\<open>pos\<close> on: \<^verbatim>\<open>current_char\<close> is its
  first character, or \<^verbatim>\<open>None\<close> at the end. A method that returns a token returns
  the advanced lexer with it.
\<close>

definition current_char :: "string \<Rightarrow> char option" where
  "current_char text = (case text of [] \<Rightarrow> None | c # _ \<Rightarrow> Some c)"

definition advance :: "string \<Rightarrow> string" where
  "advance text = drop 1 text"

definition skip_whitespace :: "string \<Rightarrow> string" where
  "skip_whitespace text = dropWhile isspace text"

definition number :: "string \<Rightarrow> error + token \<times> string" where
  "number text =
     (let result = takeWhile (\<lambda>c. isdigit c \<or> is_dot c) text;
          rest = dropWhile (\<lambda>c. isdigit c \<or> is_dot c) text
      in case py_float result of
           Inl e \<Rightarrow> Inl e
         | Inr x \<Rightarrow> Inr (Token INTEGER (PFloat x), rest))"

definition identifier_token :: "string \<Rightarrow> token \<times> string" where
  "identifier_token text =
     (let result = takeWhile isalnum text;
          rest = dropWhile isalnum text
      in if result = ''true'' then (Token TRUE (PBool True), rest)
         else if result = ''false'' then (Token FALSE (PBool False), rest)
         else if result = ''and'' then (Token AND (PStr ''and''), rest)
         else if result = ''or'' then (Token OR (PStr ''or''), rest)
         else if result = ''print'' then (Token PRINT (PStr ''print''), rest)
         else (Token IDENTIFIER (PStr result), rest))"

text \<open>\<^verbatim>\<open>Lexer.string\<close>, called with the opening quote as the current character.\<close>

definition string_token :: "string \<Rightarrow> error + token \<times> string" where
  "string_token text =
     (let body = advance text;
          result = takeWhile (\<lambda>c. c \<noteq> CHR 0x22) body;
          rest = dropWhile (\<lambda>c. c \<noteq> CHR 0x22) body
      in if current_char rest \<noteq> Some (CHR 0x22) then Inl UnterminatedString
         else Inr (Token STRING (PStr result), advance rest))"

text \<open>An operator of one character that may be followed by \<^verbatim>\<open>=\<close> to make another.\<close>

definition one_or_two :: "string \<Rightarrow> token \<Rightarrow> token \<Rightarrow> token \<times> string" where
  "one_or_two text two one =
     (let text1 = advance text
      in if current_char text1 = Some CHR ''='' then (two, advance text1)
         else (one, text1))"

function get_next_token :: "string \<Rightarrow> error + token \<times> string" where
  "get_next_token text =
     (case current_char text of
        None \<Rightarrow> Inr (Token EOF PNone, text)
      | Some c \<Rightarrow>
          if isspace c then get_next_token (skip_whitespace text)
          else if isdigit c then number text
          else if isalpha c then Inr (identifier_token text)
          else if c = CHR 0x22 then string_token text
          else if c = CHR ''='' then
            Inr (one_or_two text (Token EQ (PStr ''=='')) (Token ASSIGN (PStr ''='')))
          else if c = CHR ''!'' then
            Inr (one_or_two text (Token NEQ (PStr ''!='')) (Token NOT (PStr ''!'')))
          else if c = CHR ''<'' then
            Inr (one_or_two text (Token LE (PStr ''<='')) (Token LT (PStr ''<'')))
          else if c = CHR ''>'' then
            Inr (one_or_two text (Token GE (PStr ''>='')) (Token GT (PStr ''>'')))
          else if c = CHR ''+'' then Inr (Token PLUS (PStr ''+''), advance text)
          else if c = CHR ''-'' then Inr (Token MINUS (PStr ''-''), advance text)
          else if c = CHR ''*'' then Inr (Token MUL (PStr ''*''), advance text)
          else if c = CHR ''/'' then Inr (Token DIV (PStr ''/''), advance text)
          else if c = CHR ''('' then Inr (Token LPAREN (PStr ''(''), advance text)
          else if c = CHR '')'' then Inr (Token RPAREN (PStr '')''), advance text)
          else Inl InvalidCharacter)"
  by pat_completeness auto
termination
proof (relation "measure length")
  fix s :: string and c :: char
  assume "current_char s = Some c" and "isspace c"
  then obtain cs where "s = c # cs"
    by (cases s) (auto simp: current_char_def)
  with \<open>isspace c\<close> have "length (skip_whitespace s) \<le> length cs"
    by (simp add: skip_whitespace_def length_dropWhile_le)
  with \<open>s = c # cs\<close> show "(skip_whitespace s, s) \<in> measure length"
    by simp
qed simp

declare get_next_token.simps [simp del]

section \<open>The parser\<close>

text \<open>
  A \<^verbatim>\<open>Parser\<close> holds the current token and its lexer. The lexer is pulled one
  token at a time, so a character that cannot be lexed raises only when the
  parser asks for the token it starts.
\<close>

record parser =
  current_token :: token
  lexer :: string

definition Parser :: "string \<Rightarrow> error + parser" where
  "Parser line =
     (case get_next_token line of
        Inl e \<Rightarrow> Inl e
      | Inr (tok, rest) \<Rightarrow> Inr \<lparr>current_token = tok, lexer = rest\<rparr>)"

definition eat :: "toktype \<Rightarrow> parser \<Rightarrow> error + parser" where
  "eat token_type p =
     (if tok_type (current_token p) = token_type then
        (case get_next_token (lexer p) of
           Inl e \<Rightarrow> Inl e
         | Inr (tok, rest) \<Rightarrow> Inr \<lparr>current_token = tok, lexer = rest\<rparr>)
      else Inl (Expected token_type (current_token p)))"

text \<open>
  The methods of the grammar call each other recursively, and each \<^verbatim>\<open>while\<close> loop
  is a function of the node built so far. The recursion is not structural in the
  text, so every function takes a bound on the depth of calls and returns
  \<open>OutOfFuel\<close> when it is used up; \<open>parse\<close> below starts with a bound that is never
  used up (lemma \<open>expr_enough_fuel\<close>) and whose size does not matter (lemma
  \<open>expr_fuel_independent\<close>). The method \<^verbatim>\<open>term\<close> is \<open>term_rule\<close> here.
\<close>

function (sequential) expr :: "nat \<Rightarrow> parser \<Rightarrow> error + node \<times> parser"
  and logic_or :: "nat \<Rightarrow> parser \<Rightarrow> error + node \<times> parser"
  and logic_or_loop :: "nat \<Rightarrow> node \<Rightarrow> parser \<Rightarrow> error + node \<times> parser"
  and logic_and :: "nat \<Rightarrow> parser \<Rightarrow> error + node \<times> parser"
  and logic_and_loop :: "nat \<Rightarrow> node \<Rightarrow> parser \<Rightarrow> error + node \<times> parser"
  and equality :: "nat \<Rightarrow> parser \<Rightarrow> error + node \<times> parser"
  and equality_loop :: "nat \<Rightarrow> node \<Rightarrow> parser \<Rightarrow> error + node \<times> parser"
  and comparison :: "nat \<Rightarrow> parser \<Rightarrow> error + node \<times> parser"
  and comparison_loop :: "nat \<Rightarrow> node \<Rightarrow> parser \<Rightarrow> error + node \<times> parser"
  and additive :: "nat \<Rightarrow> parser \<Rightarrow> error + node \<times> parser"
  and additive_loop :: "nat \<Rightarrow> node \<Rightarrow> parser \<Rightarrow> error + node \<times> parser"
  and term_rule :: "nat \<Rightarrow> parser \<Rightarrow> error + node \<times> parser"
  and term_rule_loop :: "nat \<Rightarrow> node \<Rightarrow> parser \<Rightarrow> error + node \<times> parser"
  and factor :: "nat \<Rightarrow> parser \<Rightarrow> error + node \<times> parser"
where
  "expr 0 p = Inl OutOfFuel"
| "expr (Suc n) p = logic_or n p"
| "logic_or 0 p = Inl OutOfFuel"
| "logic_or (Suc n) p =
     (case logic_and n p of
        Inl e \<Rightarrow> Inl e
      | Inr (node, p1) \<Rightarrow> logic_or_loop n node p1)"
| "logic_or_loop 0 node p = Inl OutOfFuel"
| "logic_or_loop (Suc n) node p =
     (let token = current_token p
      in if tok_type token = OR then
           (case eat (tok_type token) p of
              Inl e \<Rightarrow> Inl e
            | Inr p1 \<Rightarrow>
           (case logic_and n p1 of
              Inl e \<Rightarrow> Inl e
            | Inr (rhs, p2) \<Rightarrow> logic_or_loop n (BinOp Or node rhs) p2))
         else Inr (node, p))"
| "logic_and 0 p = Inl OutOfFuel"
| "logic_and (Suc n) p =
     (case equality n p of
        Inl e \<Rightarrow> Inl e
      | Inr (node, p1) \<Rightarrow> logic_and_loop n node p1)"
| "logic_and_loop 0 node p = Inl OutOfFuel"
| "logic_and_loop (Suc n) node p =
     (let token = current_token p
      in if tok_type token = AND then
           (case eat (tok_type token) p of
              Inl e \<Rightarrow> Inl e
            | Inr p1 \<Rightarrow>
           (case equality n p1 of
              Inl e \<Rightarrow> Inl e
            | Inr (rhs, p2) \<Rightarrow> logic_and_loop n (BinOp And node rhs) p2))
         else Inr (node, p))"
| "equality 0 p = Inl OutOfFuel"
| "equality (Suc n) p =
     (case comparison n p of
        Inl e \<Rightarrow> Inl e
      | Inr (node, p1) \<Rightarrow> equality_loop n node p1)"
| "equality_loop 0 node p = Inl OutOfFuel"
| "equality_loop (Suc n) node p =
     (let token = current_token p
      in if tok_type token = EQ \<or> tok_type token = NEQ then
           (case eat (tok_type token) p of
              Inl e \<Rightarrow> Inl e
            | Inr p1 \<Rightarrow>
           (case comparison n p1 of
              Inl e \<Rightarrow> Inl e
            | Inr (rhs, p2) \<Rightarrow> equality_loop n (BinOp (if tok_type token = EQ then Eq else Neq) node rhs) p2))
         else Inr (node, p))"
| "comparison 0 p = Inl OutOfFuel"
| "comparison (Suc n) p =
     (case additive n p of
        Inl e \<Rightarrow> Inl e
      | Inr (node, p1) \<Rightarrow> comparison_loop n node p1)"
| "comparison_loop 0 node p = Inl OutOfFuel"
| "comparison_loop (Suc n) node p =
     (let token = current_token p
      in if tok_type token = LT \<or> tok_type token = GT \<or> tok_type token = LE \<or> tok_type token = GE then
           (case eat (tok_type token) p of
              Inl e \<Rightarrow> Inl e
            | Inr p1 \<Rightarrow>
           (case additive n p1 of
              Inl e \<Rightarrow> Inl e
            | Inr (rhs, p2) \<Rightarrow> comparison_loop n (BinOp (if tok_type token = LT then Lt else if tok_type token = GT then Gt
                 else if tok_type token = LE then Le else Ge) node rhs) p2))
         else Inr (node, p))"
| "additive 0 p = Inl OutOfFuel"
| "additive (Suc n) p =
     (case term_rule n p of
        Inl e \<Rightarrow> Inl e
      | Inr (node, p1) \<Rightarrow> additive_loop n node p1)"
| "additive_loop 0 node p = Inl OutOfFuel"
| "additive_loop (Suc n) node p =
     (let token = current_token p
      in if tok_type token = PLUS \<or> tok_type token = MINUS then
           (case eat (tok_type token) p of
              Inl e \<Rightarrow> Inl e
            | Inr p1 \<Rightarrow>
           (case term_rule n p1 of
              Inl e \<Rightarrow> Inl e
            | Inr (rhs, p2) \<Rightarrow> additive_loop n (BinOp (if tok_type token = PLUS then Add else Sub) node rhs) p2))
         else Inr (node, p))"
| "term_rule 0 p = Inl OutOfFuel"
| "term_rule (Suc n) p =
     (case factor n p of
        Inl e \<Rightarrow> Inl e
      | Inr (node, p1) \<Rightarrow> term_rule_loop n node p1)"
| "term_rule_loop 0 node p = Inl OutOfFuel"
| "term_rule_loop (Suc n) node p =
     (let token = current_token p
      in if tok_type token = MUL \<or> tok_type token = DIV then
           (case eat (tok_type token) p of
              Inl e \<Rightarrow> Inl e
            | Inr p1 \<Rightarrow>
           (case factor n p1 of
              Inl e \<Rightarrow> Inl e
            | Inr (rhs, p2) \<Rightarrow> term_rule_loop n (BinOp (if tok_type token = MUL then Mul else Div) node rhs) p2))
         else Inr (node, p))"
| "factor 0 p = Inl OutOfFuel"
| "factor (Suc n) p =
     (let token = current_token p
      in if tok_type token = MINUS then
           (case eat MINUS p of
              Inl e \<Rightarrow> Inl e
            | Inr p1 \<Rightarrow>
           (case factor n p1 of
              Inl e \<Rightarrow> Inl e
            | Inr (operand, p2) \<Rightarrow> Inr (NegNode operand, p2)))
         else if tok_type token = NOT then
           (case eat NOT p of
              Inl e \<Rightarrow> Inl e
            | Inr p1 \<Rightarrow>
           (case factor n p1 of
              Inl e \<Rightarrow> Inl e
            | Inr (operand, p2) \<Rightarrow> Inr (NotNode operand, p2)))
         else if tok_type token = INTEGER then
           (case eat INTEGER p of
              Inl e \<Rightarrow> Inl e
            | Inr p1 \<Rightarrow> Inr (Leaf (tok_value token), p1))
         else if tok_type token = STRING then
           (case eat STRING p of
              Inl e \<Rightarrow> Inl e
            | Inr p1 \<Rightarrow> Inr (Leaf (tok_value token), p1))
         else if tok_type token = TRUE then
           (case eat TRUE p of
              Inl e \<Rightarrow> Inl e
            | Inr p1 \<Rightarrow> Inr (Leaf (PBool True), p1))
         else if tok_type token = FALSE then
           (case eat FALSE p of
              Inl e \<Rightarrow> Inl e
            | Inr p1 \<Rightarrow> Inr (Leaf (PBool False), p1))
         else if tok_type token = IDENTIFIER then
           (case eat IDENTIFIER p of
              Inl e \<Rightarrow> Inl e
            | Inr p1 \<Rightarrow> Inr (Leaf (tok_value token), p1))
         else if tok_type token = LPAREN then
           (case eat LPAREN p of
              Inl e \<Rightarrow> Inl e
            | Inr p1 \<Rightarrow>
           (case expr n p1 of
              Inl e \<Rightarrow> Inl e
            | Inr (node, p2) \<Rightarrow>
           (case eat RPAREN p2 of
              Inl e \<Rightarrow> Inl e
            | Inr p3 \<Rightarrow> Inr (node, p3))))
         else Inl (UnexpectedToken token))"
  by pat_completeness auto
termination
  by (relation "measure (case_sum
        (case_sum (case_sum fst (case_sum fst fst))
                  (case_sum (case_sum fst fst) (case_sum fst fst)))
        (case_sum (case_sum fst (case_sum fst fst))
                  (case_sum (case_sum fst fst) (case_sum fst fst))))")
     simp_all

text \<open>
  What is left to read: the characters the lexer has not consumed, and the
  current token unless it is the end of the input.
\<close>

definition remaining :: "parser \<Rightarrow> nat" where
  "remaining p =
     length (lexer p) + (if tok_type (current_token p) = EOF then 0 else 1)"

definition enough_fuel :: "parser \<Rightarrow> nat" where
  "enough_fuel p = 14 * remaining p + 14"

text \<open>\<^verbatim>\<open>Parser.parse\<close>: one statement, or a bare expression.\<close>

definition parse :: "parser \<Rightarrow> error + node \<times> parser" where
  "parse p =
     (if tok_type (current_token p) = PRINT then
        (case eat PRINT p of
           Inl e \<Rightarrow> Inl e
         | Inr p1 \<Rightarrow>
        (case expr (enough_fuel p1) p1 of
           Inl e \<Rightarrow> Inl e
         | Inr (e1, p2) \<Rightarrow> Inr (PrintNode e1, p2)))
      else if tok_type (current_token p) = IDENTIFIER then
        (let name = tok_value (current_token p)
         in case eat IDENTIFIER p of
              Inl e \<Rightarrow> Inl e
            | Inr p1 \<Rightarrow>
                if tok_type (current_token p1) = ASSIGN then
                  (case eat ASSIGN p1 of
                     Inl e \<Rightarrow> Inl e
                   | Inr p2 \<Rightarrow>
                  (case expr (enough_fuel p2) p2 of
                     Inl e \<Rightarrow> Inl e
                   | Inr (v, p3) \<Rightarrow> Inr (AssignNode name v, p3)))
                else Inl (InvalidAssignment name))
      else expr (enough_fuel p) p)"

section \<open>The evaluator\<close>

text \<open>
  \<^verbatim>\<open>global_env\<close> is a module-level dict and \<^verbatim>\<open>print\<close> writes to standard output:
  both are the state that \<^verbatim>\<open>evaluate\<close> threads. An exception leaves the state as it
  is at the raise, so the state is returned beside an error too. An output line is
  kept as the event that produced it, not as formatted text.
\<close>

datatype out_line =
    Printed pyval                   \<comment> \<open>\<^verbatim>\<open>print(val)\<close> in \<^verbatim>\<open>evaluate\<close>\<close>
  | Echo string pyval               \<comment> \<open>\<^verbatim>\<open>print(f'{line} = {result}')\<close>, quoted for a \<^verbatim>\<open>str\<close>\<close>
  | ErrorLine string error          \<comment> \<open>\<^verbatim>\<open>print(f'Error in line "{line}": {e}')\<close>\<close>

record state =
  global_env :: "pyval \<rightharpoonup> pyval"
  stdout :: "out_line list"

definition apply_binop :: "binop \<Rightarrow> pyval \<Rightarrow> pyval \<Rightarrow> error + pyval" where
  "apply_binop op lval rval =
     (if op = Add then py_add lval rval
      else if op = Sub then py_sub lval rval
      else if op = Mul then py_mul lval rval
      else if op = Div then
        (if py_eq rval (PInt 0) then Inl DivisionByZero else py_truediv lval rval)
      else if op = Eq then Inr (PBool (py_eq lval rval))
      else if op = Neq then Inr (PBool (\<not> py_eq lval rval))
      else if op = Lt then py_lt lval rval
      else if op = Gt then py_gt lval rval
      else if op = Le then py_le lval rval
      else if op = Ge then py_ge lval rval
      else if op = And then Inr (if truthy lval then rval else lval)
      else Inr (if truthy lval then lval else rval))"

fun evaluate :: "node \<Rightarrow> state \<Rightarrow> (error + pyval) \<times> state" where
  "evaluate (NegNode operand) s =
     (case evaluate operand s of
        (Inl e, s1) \<Rightarrow> (Inl e, s1)
      | (Inr v, s1) \<Rightarrow> (py_neg v, s1))"
| "evaluate (NotNode operand) s =
     (case evaluate operand s of
        (Inl e, s1) \<Rightarrow> (Inl e, s1)
      | (Inr v, s1) \<Rightarrow> (Inr (PBool (\<not> truthy v)), s1))"
| "evaluate (AssignNode name rhs) s =
     (case evaluate rhs s of
        (Inl e, s1) \<Rightarrow> (Inl e, s1)
      | (Inr v, s1) \<Rightarrow> (Inr PNone, s1\<lparr>global_env := (global_env s1)(name \<mapsto> v)\<rparr>))"
| "evaluate (PrintNode arg) s =
     (case evaluate arg s of
        (Inl e, s1) \<Rightarrow> (Inl e, s1)
      | (Inr v, s1) \<Rightarrow> (Inr PNone, s1\<lparr>stdout := stdout s1 @ [Printed v]\<rparr>))"
| "evaluate (BinOp op left right) s =
     (case evaluate left s of
        (Inl e, s1) \<Rightarrow> (Inl e, s1)
      | (Inr lval, s1) \<Rightarrow>
     (case evaluate right s1 of
        (Inl e, s2) \<Rightarrow> (Inl e, s2)
      | (Inr rval, s2) \<Rightarrow> (apply_binop op lval rval, s2)))"
| "evaluate (Leaf (PStr name)) s =
     (case global_env s (PStr name) of
        Some v \<Rightarrow> (Inr v, s)
      | None \<Rightarrow> (Inr (PStr name), s))"
| "evaluate (Leaf v) s = (Inr v, s)"

section \<open>Running a file\<close>

text \<open>
  \<^verbatim>\<open>str.strip\<close> removes the whitespace at both ends of a line.
\<close>

definition strip :: "string \<Rightarrow> string" where
  "strip line = rev (dropWhile isspace (rev (dropWhile isspace line)))"

text \<open>
  The first three statements of the \<^verbatim>\<open>try\<close> block, on a stripped, non-empty line:
  \<^verbatim>\<open>lexer = Lexer(line); parser = Parser(lexer); tree = parser.parse()\<close>.
\<close>

definition parse_line :: "string \<Rightarrow> error + node \<times> parser" where
  "parse_line line =
     (case Parser line of
        Inl e \<Rightarrow> Inl e
      | Inr p \<Rightarrow> parse p)"

text \<open>
  The \<^verbatim>\<open>try\<close> block up to the result of \<^verbatim>\<open>evaluate\<close>: either the exception that
  was raised or the value returned, and the state it leaves.
\<close>

definition exec_line :: "string \<Rightarrow> state \<Rightarrow> (error + pyval) \<times> state" where
  "exec_line line s =
     (case parse_line line of
        Inl e \<Rightarrow> (Inl e, s)
      | Inr (tree, p1) \<Rightarrow> evaluate tree s)"

text \<open>One iteration of the loop of \<^verbatim>\<open>run_file\<close>, on one line of the file.\<close>

definition run_line :: "string \<Rightarrow> state \<Rightarrow> state" where
  "run_line raw s =
     (let line = strip raw
      in if line = [] then s
         else
           (case exec_line line s of
              (Inl e, s1) \<Rightarrow> s1\<lparr>stdout := stdout s1 @ [ErrorLine line e]\<rparr>
            | (Inr result, s1) \<Rightarrow>
                if result \<noteq> PNone then s1\<lparr>stdout := stdout s1 @ [Echo line result]\<rparr>
                else s1))"

text \<open>\<^verbatim>\<open>run_file\<close> on the lines of the file, in order.\<close>

fun run_file :: "string list \<Rightarrow> state \<Rightarrow> state" where
  "run_file [] s = s"
| "run_file (raw # lines) s = run_file lines (run_line raw s)"

text \<open>The state at process start: \<^verbatim>\<open>global_env = {}\<close> and nothing printed.\<close>

definition initial_state :: state where
  "initial_state = \<lparr>global_env = Map.empty, stdout = []\<rparr>"

section \<open>The shape of the grammar's methods\<close>

text \<open>
  A tree without an assignment or a print below its root: the trees that \<^verbatim>\<open>expr\<close>
  builds.
\<close>

fun pure_expr :: "node \<Rightarrow> bool" where
  "pure_expr (Leaf v) = True"
| "pure_expr (NegNode operand) = pure_expr operand"
| "pure_expr (NotNode operand) = pure_expr operand"
| "pure_expr (AssignNode name rhs) = False"
| "pure_expr (PrintNode arg) = False"
| "pure_expr (BinOp op left right) = (pure_expr left \<and> pure_expr right)"

text \<open>
  One unfolding of the three kinds of method, with the calls they make as
  parameters: a binary level (\<^verbatim>\<open>node = self.sub()\<close>, then the loop), one test of
  a \<^verbatim>\<open>while\<close> loop with its body, and \<^verbatim>\<open>factor\<close>. The six levels of the grammar
  are instances of the first two (lemmas \<open>logic_or_Suc\<close> to \<open>factor_Suc\<close>).
\<close>

definition level_step ::
  "(parser \<Rightarrow> error + node \<times> parser) \<Rightarrow> (node \<Rightarrow> parser \<Rightarrow> error + node \<times> parser)
     \<Rightarrow> parser \<Rightarrow> error + node \<times> parser" where
  "level_step operand loop p =
     (case operand p of
        Inl e \<Rightarrow> Inl e
      | Inr (node, p1) \<Rightarrow> loop node p1)"

definition loop_step ::
  "(token \<Rightarrow> bool) \<Rightarrow> (token \<Rightarrow> binop) \<Rightarrow> (parser \<Rightarrow> error + node \<times> parser)
     \<Rightarrow> (node \<Rightarrow> parser \<Rightarrow> error + node \<times> parser)
     \<Rightarrow> node \<Rightarrow> parser \<Rightarrow> error + node \<times> parser" where
  "loop_step starts tag operand again node p =
     (let token = current_token p
      in if starts token then
           (case eat (tok_type token) p of
              Inl e \<Rightarrow> Inl e
            | Inr p1 \<Rightarrow>
           (case operand p1 of
              Inl e \<Rightarrow> Inl e
            | Inr (rhs, p2) \<Rightarrow> again (BinOp (tag token) node rhs) p2))
         else Inr (node, p))"

definition factor_step ::
  "(parser \<Rightarrow> error + node \<times> parser) \<Rightarrow> (parser \<Rightarrow> error + node \<times> parser)
     \<Rightarrow> parser \<Rightarrow> error + node \<times> parser" where
  "factor_step sub inner p =
     (let token = current_token p
      in if tok_type token = MINUS then
           (case eat MINUS p of
              Inl e \<Rightarrow> Inl e
            | Inr p1 \<Rightarrow>
           (case sub p1 of
              Inl e \<Rightarrow> Inl e
            | Inr (operand, p2) \<Rightarrow> Inr (NegNode operand, p2)))
         else if tok_type token = NOT then
           (case eat NOT p of
              Inl e \<Rightarrow> Inl e
            | Inr p1 \<Rightarrow>
           (case sub p1 of
              Inl e \<Rightarrow> Inl e
            | Inr (operand, p2) \<Rightarrow> Inr (NotNode operand, p2)))
         else if tok_type token = INTEGER then
           (case eat INTEGER p of
              Inl e \<Rightarrow> Inl e
            | Inr p1 \<Rightarrow> Inr (Leaf (tok_value token), p1))
         else if tok_type token = STRING then
           (case eat STRING p of
              Inl e \<Rightarrow> Inl e
            | Inr p1 \<Rightarrow> Inr (Leaf (tok_value token), p1))
         else if tok_type token = TRUE then
           (case eat TRUE p of
              Inl e \<Rightarrow> Inl e
            | Inr p1 \<Rightarrow> Inr (Leaf (PBool True), p1))
         else if tok_type token = FALSE then
           (case eat FALSE p of
              Inl e \<Rightarrow> Inl e
            | Inr p1 \<Rightarrow> Inr (Leaf (PBool False), p1))
         else if tok_type token = IDENTIFIER then
           (case eat IDENTIFIER p of
              Inl e \<Rightarrow> Inl e
            | Inr p1 \<Rightarrow> Inr (Leaf (tok_value token), p1))
         else if tok_type token = LPAREN then
           (case eat LPAREN p of
              Inl e \<Rightarrow> Inl e
            | Inr p1 \<Rightarrow>
           (case inner p1 of
              Inl e \<Rightarrow> Inl e
            | Inr (node, p2) \<Rightarrow>
           (case eat RPAREN p2 of
              Inl e \<Rightarrow> Inl e
            | Inr p3 \<Rightarrow> Inr (node, p3))))
         else Inl (UnexpectedToken token))"

section \<open>Rules for running the model on a concrete input\<close>

lemma get_next_token_Nil: "get_next_token [] = Inr (Token EOF PNone, [])"
  by (simp add: get_next_token.simps current_char_def)

lemma get_next_token_Cons:
  "get_next_token (c # cs) =
     (if isspace c then get_next_token (skip_whitespace (c # cs))
      else if isdigit c then number (c # cs)
      else if isalpha c then Inr (identifier_token (c # cs))
      else if c = CHR 0x22 then string_token (c # cs)
      else if c = CHR ''='' then
        Inr (one_or_two (c # cs) (Token EQ (PStr ''=='')) (Token ASSIGN (PStr ''='')))
      else if c = CHR ''!'' then
        Inr (one_or_two (c # cs) (Token NEQ (PStr ''!='')) (Token NOT (PStr ''!'')))
      else if c = CHR ''<'' then
        Inr (one_or_two (c # cs) (Token LE (PStr ''<='')) (Token LT (PStr ''<'')))
      else if c = CHR ''>'' then
        Inr (one_or_two (c # cs) (Token GE (PStr ''>='')) (Token GT (PStr ''>'')))
      else if c = CHR ''+'' then Inr (Token PLUS (PStr ''+''), cs)
      else if c = CHR ''-'' then Inr (Token MINUS (PStr ''-''), cs)
      else if c = CHR ''*'' then Inr (Token MUL (PStr ''*''), cs)
      else if c = CHR ''/'' then Inr (Token DIV (PStr ''/''), cs)
      else if c = CHR ''('' then Inr (Token LPAREN (PStr ''(''), cs)
      else if c = CHR '')'' then Inr (Token RPAREN (PStr '')''), cs)
      else Inl InvalidCharacter)"
  by (subst get_next_token.simps) (simp add: current_char_def advance_def)

lemma log2_up_step: "k < 1024 \<Longrightarrow> 2 ^ Suc k \<le> q \<Longrightarrow> log2_up k q = log2_up (Suc k) q"
  by (subst log2_up.simps) simp

lemma log2_up_stop: "\<not> (k < 1024 \<and> 2 ^ Suc k \<le> q) \<Longrightarrow> log2_up k q = k"
  by (subst log2_up.simps) auto

lemma log2_down_step: "k < 1022 \<Longrightarrow> q * 2 ^ k < 1 \<Longrightarrow> log2_down k q = log2_down (Suc k) q"
  by (subst log2_down.simps) simp

lemma log2_down_stop: "\<not> (k < 1022 \<and> q * 2 ^ k < 1) \<Longrightarrow> log2_down k q = k"
  by (subst log2_down.simps) auto

lemmas float_eval =
  round_double_def round_magnitude_def binade_def pow2_def round_half_even_def
  log2_up_step log2_up_stop log2_down_step log2_down_stop
  float_add_def float_sub_def float_mul_def float_div_def float_eq_def float_lt_def
  float_le_def signed_zero_def signed_inf_def float_of_int_def float_binop_def
  int_truediv_def

lemmas lexer_eval =
  get_next_token_Nil get_next_token_Cons skip_whitespace_def number_def
  identifier_token_def string_token_def one_or_two_def current_char_def advance_def
  py_float_def digits_value_def is_dot_def is_decimal_def
  isspace_def isdigit_def isalpha_def isalnum_def Let_def float_eval

lemmas fuel_eval =
  expr.simps(2) [of "pred_numeral k" for k, folded numeral_eq_Suc]
  logic_or.simps(2) [of "pred_numeral k" for k, folded numeral_eq_Suc]
  logic_or_loop.simps(2) [of "pred_numeral k" for k, folded numeral_eq_Suc]
  logic_and.simps(2) [of "pred_numeral k" for k, folded numeral_eq_Suc]
  logic_and_loop.simps(2) [of "pred_numeral k" for k, folded numeral_eq_Suc]
  equality.simps(2) [of "pred_numeral k" for k, folded numeral_eq_Suc]
  equality_loop.simps(2) [of "pred_numeral k" for k, folded numeral_eq_Suc]
  comparison.simps(2) [of "pred_numeral k" for k, folded numeral_eq_Suc]
  comparison_loop.simps(2) [of "pred_numeral k" for k, folded numeral_eq_Suc]
  additive.simps(2) [of "pred_numeral k" for k, folded numeral_eq_Suc]
  additive_loop.simps(2) [of "pred_numeral k" for k, folded numeral_eq_Suc]
  term_rule.simps(2) [of "pred_numeral k" for k, folded numeral_eq_Suc]
  term_rule_loop.simps(2) [of "pred_numeral k" for k, folded numeral_eq_Suc]
  factor.simps(2) [of "pred_numeral k" for k, folded numeral_eq_Suc]

lemmas parser_eval =
  Parser_def eat_def parse_def enough_fuel_def remaining_def fuel_eval

lemmas evaluator_eval =
  apply_binop_def py_add_def py_sub_def py_mul_def py_truediv_def py_eq_def
  py_lt_def py_gt_def py_le_def py_ge_def py_neg_def str_repeat_def float_eval

lemmas run_eval =
  run_line_def exec_line_def parse_line_def strip_def initial_state_def

section \<open>The evaluator: identifiers and logical operators\<close>

text \<open>
  Claim C6. For an identifier node, which is a bare Python \<^verbatim>\<open>str\<close> \<open>n\<close>, and every
  state: when \<open>n\<close> is a key of \<^verbatim>\<open>global_env\<close>, \<^verbatim>\<open>evaluate\<close> returns the value stored
  under it; when it is not, \<^verbatim>\<open>evaluate\<close> returns the string \<open>n\<close> itself and raises
  nothing. The state is unchanged in both cases.
\<close>

theorem evaluate_identifier:
  "(global_env s (PStr n) = Some v \<longrightarrow> evaluate (Leaf (PStr n)) s = (Inr v, s)) \<and>
   (global_env s (PStr n) = None \<longrightarrow> evaluate (Leaf (PStr n)) s = (Inr (PStr n), s))"
  by simp

theorem evaluate_identifier_witness:
  "evaluate (Leaf (PStr ''x'')) \<lparr>global_env = [PStr ''x'' \<mapsto> PFloat (Fin 10)], stdout = []\<rparr>
     = (Inr (PFloat (Fin 10)), \<lparr>global_env = [PStr ''x'' \<mapsto> PFloat (Fin 10)], stdout = []\<rparr>) \<and>
   evaluate (Leaf (PStr ''foo'')) \<lparr>global_env = [PStr ''x'' \<mapsto> PFloat (Fin 10)], stdout = []\<rparr>
     = (Inr (PStr ''foo''), \<lparr>global_env = [PStr ''x'' \<mapsto> PFloat (Fin 10)], stdout = []\<rparr>)"
proof -
  let ?s = "\<lparr>global_env = [PStr ''x'' \<mapsto> PFloat (Fin 10)], stdout = []\<rparr>"
  have bound: "global_env ?s (PStr ''x'') = Some (PFloat (Fin 10))" by simp
  have unbound: "global_env ?s (PStr ''foo'') = None" by simp
  from evaluate_identifier [of ?s "''x''" "PFloat (Fin 10)"] bound
  have "evaluate (Leaf (PStr ''x'')) ?s = (Inr (PFloat (Fin 10)), ?s)" by blast
  moreover from evaluate_identifier [of ?s "''foo''"] unbound
  have "evaluate (Leaf (PStr ''foo'')) ?s = (Inr (PStr ''foo''), ?s)" by blast
  ultimately show ?thesis by blast
qed

text \<open>
  Claim C5. When both operands have returned values \<open>lval\<close> and \<open>rval\<close>, \<^verbatim>\<open>and\<close>
  returns \<open>rval\<close> if \<open>lval\<close> is truthy and \<open>lval\<close> otherwise, and \<^verbatim>\<open>or\<close> returns \<open>lval\<close>
  if \<open>lval\<close> is truthy and \<open>rval\<close> otherwise. A number is truthy iff it is not zero
  (a float iff it is neither of the two zeros), a string iff it is not empty,
  and a Boolean is its own truth value.
\<close>

theorem and_or_value_selection:
  "(evaluate left s = (Inr lval, s1) \<and> evaluate right s1 = (Inr rval, s2) \<longrightarrow>
      evaluate (BinOp And left right) s = (Inr (if truthy lval then rval else lval), s2) \<and>
      evaluate (BinOp Or left right) s = (Inr (if truthy lval then lval else rval), s2)) \<and>
   truthy (PFloat x) = (float_value x \<noteq> Some 0) \<and> truthy (PInt i) = (i \<noteq> 0) \<and>
   truthy (PStr t) = (t \<noteq> []) \<and> truthy (PBool b) = b"
  by (simp add: apply_binop_def)

theorem and_or_value_selection_witness:
  "evaluate (BinOp And (Leaf (PFloat (Fin 0))) (Leaf (PBool True))) initial_state
     = (Inr (PFloat (Fin 0)), initial_state) \<and>
   evaluate (BinOp Or (Leaf (PFloat (Fin 0))) (Leaf (PBool True))) initial_state
     = (Inr (PBool True), initial_state)"
proof -
  have left: "evaluate (Leaf (PFloat (Fin 0))) initial_state = (Inr (PFloat (Fin 0)), initial_state)"
    by simp
  have right: "evaluate (Leaf (PBool True)) initial_state = (Inr (PBool True), initial_state)"
    by simp
  from and_or_value_selection [of "Leaf (PFloat (Fin 0))" initial_state "PFloat (Fin 0)" initial_state
      "Leaf (PBool True)" "PBool True" initial_state] left right
  show ?thesis by simp
qed

text \<open>
  Claim C10. Whatever value the left operand has, a division whose right operand
  evaluates to the Boolean \<^verbatim>\<open>False\<close> raises \<open>DivisionByZero\<close>, not a type error: the
  test \<^verbatim>\<open>rval == 0\<close> comes before the division and \<^verbatim>\<open>False == 0\<close> holds in Python.
\<close>

theorem division_by_false:
  assumes "evaluate left s = (Inr lval, s1)"
    and "evaluate right s1 = (Inr (PBool False), s2)"
  shows "evaluate (BinOp Div left right) s = (Inl DivisionByZero, s2)"
  using assms by (simp add: apply_binop_def py_eq_def float_eq_def)

theorem division_by_false_witness:
  "evaluate (BinOp Div (Leaf (PStr ''abc'')) (Leaf (PBool False))) initial_state
     = (Inl DivisionByZero, initial_state)"
proof (rule division_by_false)
  show "evaluate (Leaf (PStr ''abc'')) initial_state = (Inr (PStr ''abc''), initial_state)"
    by (simp add: initial_state_def)
  show "evaluate (Leaf (PBool False)) initial_state = (Inr (PBool False), initial_state)"
    by simp
qed

section \<open>String literals\<close>

text \<open>
  Claim C3 says that a string literal evaluates to its own text, also when a
  variable has that text as its name. In the source a string literal and an
  identifier are the same leaf, a Python \<^verbatim>\<open>str\<close>, and \<^verbatim>\<open>evaluate\<close> looks every
  \<^verbatim>\<open>str\<close> up in \<^verbatim>\<open>global_env\<close>: after \<^verbatim>\<open>x = 10\<close> the line \<^verbatim>\<open>"x"\<close> is echoed with
  the value \<^verbatim>\<open>10.0\<close>.
\<close>

theorem string_literal_shadowed:
  "run_file [''x = 10'', [CHR 0x22, CHR ''x'', CHR 0x22]] initial_state =
     \<lparr>global_env = [PStr ''x'' \<mapsto> PFloat (Fin 10)],
      stdout = [Echo [CHR 0x22, CHR ''x'', CHR 0x22] (PFloat (Fin 10))]\<rparr>"
  by (simp add: run_eval lexer_eval parser_eval evaluator_eval)

section \<open>Statements\<close>

text \<open>
  Claim C1, as the claim states it, fails: after \<^verbatim>\<open>x = 10\<close>, the lines \<^verbatim>\<open>x + 5\<close> and
  \<^verbatim>\<open>foo\<close> are reported as errors, \<^verbatim>\<open>Invalid assignment: x\<close> and
  \<^verbatim>\<open>Invalid assignment: foo\<close>, and no value is echoed.
\<close>

theorem identifier_start_counterexample:
  "run_file [''x = 10'', ''x + 5'', ''foo''] initial_state =
     \<lparr>global_env = [PStr ''x'' \<mapsto> PFloat (Fin 10)],
      stdout = [ErrorLine ''x + 5'' (InvalidAssignment (PStr ''x'')),
                ErrorLine ''foo'' (InvalidAssignment (PStr ''foo''))]\<rparr>"
  by (simp add: run_eval lexer_eval parser_eval evaluator_eval)

text \<open>
  Claim C1, amended. \<^verbatim>\<open>Parser.parse\<close> eats an identifier at the start of a line
  and then requires \<^verbatim>\<open>=\<close>. For every line whose first token is an identifier and
  whose second token is any token but \<^verbatim>\<open>=\<close>, \<^verbatim>\<open>parse\<close> raises
  \<^verbatim>\<open>Invalid assignment: <name>\<close>; nothing is evaluated and the state is unchanged.
\<close>

theorem identifier_start_not_assignment:
  assumes "get_next_token line = Inr (Token IDENTIFIER name, rest)"
    and "get_next_token rest = Inr (tok, rest')"
    and "tok_type tok \<noteq> ASSIGN"
  shows "parse_line line = Inl (InvalidAssignment name) \<and>
         exec_line line s = (Inl (InvalidAssignment name), s)"
  using assms by (simp add: exec_line_def parse_line_def Parser_def parse_def eat_def)

theorem identifier_start_not_assignment_witness:
  "parse_line ''x + 5'' = Inl (InvalidAssignment (PStr ''x'')) \<and>
   exec_line ''x + 5'' initial_state = (Inl (InvalidAssignment (PStr ''x'')), initial_state)"
proof (rule identifier_start_not_assignment)
  show "get_next_token ''x + 5'' = Inr (Token IDENTIFIER (PStr ''x''), '' + 5'')"
    by (simp add: lexer_eval)
  show "get_next_token '' + 5'' = Inr (Token PLUS (PStr ''+''), '' 5'')"
    by (simp add: lexer_eval)
  show "tok_type (Token PLUS (PStr ''+'')) \<noteq> ASSIGN"
    by simp
qed

text \<open>
  Claim C2, as the claim states it, fails: on the line \<^verbatim>\<open>1 2\<close>, \<^verbatim>\<open>Parser.parse\<close>
  returns the literal \<^verbatim>\<open>1.0\<close> with the token \<^verbatim>\<open>2\<close> left as the current token, and
  \<^verbatim>\<open>run_file\<close> echoes \<^verbatim>\<open>1 2 = 1.0\<close>.
\<close>

theorem trailing_tokens_counterexample:
  "parse_line ''1 2'' =
     Inr (Leaf (PFloat (Fin 1)), \<lparr>current_token = Token INTEGER (PFloat (Fin 2)), lexer = []\<rparr>) \<and>
   run_file [''1 2''] initial_state =
     \<lparr>global_env = Map.empty, stdout = [Echo ''1 2'' (PFloat (Fin 1))]\<rparr>"
  by (simp add: run_eval lexer_eval parser_eval evaluator_eval)

section \<open>The lexer makes progress\<close>

text \<open>
  A token that is not the end of the input takes at least one character, and the
  lexer raises none but its own errors.
\<close>

lemma number_remaining:
  assumes "isdigit c" and "number (c # cs) = Inr (tok, rest)"
  shows "length rest \<le> length cs \<and> tok_type tok = INTEGER"
proof -
  from assms(2) have "rest = dropWhile (\<lambda>c. isdigit c \<or> is_dot c) (c # cs)"
    and "tok_type tok = INTEGER"
    by (auto simp: number_def Let_def split: sum.splits)
  with assms(1) show ?thesis
    by (simp add: length_dropWhile_le)
qed

lemma identifier_token_remaining:
  assumes "isalpha c" and "identifier_token (c # cs) = (tok, rest)"
  shows "length rest \<le> length cs \<and> tok_type tok \<noteq> EOF"
proof -
  from assms(2) have "rest = dropWhile isalnum (c # cs)" and "tok_type tok \<noteq> EOF"
    by (auto simp: identifier_token_def Let_def split: if_splits)
  moreover from assms(1) have "isalnum c"
    by (simp add: isalnum_def)
  ultimately show ?thesis
    by (simp add: length_dropWhile_le)
qed

lemma string_token_remaining:
  assumes "string_token (c # cs) = Inr (tok, rest)"
  shows "length rest \<le> length cs \<and> tok_type tok = STRING"
proof -
  from assms have "rest = drop 1 (dropWhile (\<lambda>c. c \<noteq> CHR 0x22) cs)"
    and "tok_type tok = STRING"
    by (auto simp: string_token_def advance_def Let_def split: if_splits)
  moreover have "length (dropWhile (\<lambda>c. c \<noteq> CHR 0x22) cs) \<le> length cs"
    by (rule length_dropWhile_le)
  ultimately show ?thesis by simp
qed

lemma one_or_two_remaining:
  assumes "one_or_two (c # cs) two one = (tok, rest)"
  shows "length rest \<le> length cs \<and> (tok = two \<or> tok = one)"
  using assms by (auto simp: one_or_two_def advance_def Let_def split: if_splits)

lemma get_next_token_nonspace:
  assumes "\<not> isspace c" and "get_next_token (c # cs) = Inr (tok, rest)"
  shows "length rest \<le> length cs \<and> tok_type tok \<noteq> EOF"
proof -
  note branch = number_remaining [of c cs tok rest]
    identifier_token_remaining [of c cs tok rest]
    string_token_remaining [of c cs tok rest]
  from assms(2) show ?thesis
    unfolding get_next_token_Cons [of c cs] using assms(1) branch
    by (simp split: if_splits) (auto dest: one_or_two_remaining)
qed

lemma get_next_token_remaining:
  "get_next_token src = Inr (tok, rest) \<Longrightarrow>
     length rest + (if tok_type tok = EOF then 0 else 1) \<le> length src"
proof (induction src arbitrary: tok rest rule: get_next_token.induct)
  case (1 src)
  show ?case
  proof (cases src)
    case Nil
    with "1.prems" show ?thesis by (auto simp: get_next_token_Nil)
  next
    case (Cons c cs)
    show ?thesis
    proof (cases "isspace c")
      case True
      with Cons "1.prems" have "get_next_token (skip_whitespace src) = Inr (tok, rest)"
        by (simp add: get_next_token_Cons)
      moreover from Cons have "current_char src = Some c"
        by (simp add: current_char_def)
      ultimately have "length rest + (if tok_type tok = EOF then 0 else 1)
          \<le> length (skip_whitespace src)"
        using "1.IH" True by blast
      also have "\<dots> \<le> length src"
        by (simp add: skip_whitespace_def length_dropWhile_le)
      finally show ?thesis .
    next
      case False
      from get_next_token_nonspace [OF False] "1.prems" Cons show ?thesis
        by simp
    qed
  qed
qed

lemma number_no_OutOfFuel: "number src \<noteq> Inl OutOfFuel"
  by (simp add: number_def py_float_def Let_def split: sum.splits)

lemma string_token_no_OutOfFuel: "string_token src \<noteq> Inl OutOfFuel"
  by (simp add: string_token_def Let_def)

lemma get_next_token_no_OutOfFuel: "get_next_token src \<noteq> Inl OutOfFuel"
proof (induction src rule: get_next_token.induct)
  case (1 src)
  show ?case
  proof (cases src)
    case Nil
    then show ?thesis by (simp add: get_next_token_Nil)
  next
    case (Cons c cs)
    show ?thesis
    proof (cases "isspace c")
      case True
      with Cons have "get_next_token src = get_next_token (skip_whitespace src)"
        by (simp add: get_next_token_Cons)
      moreover from Cons have "current_char src = Some c"
        by (simp add: current_char_def)
      ultimately show ?thesis using "1.IH" True by simp
    next
      case False
      with Cons show ?thesis
        by (simp add: get_next_token_Cons number_no_OutOfFuel string_token_no_OutOfFuel)
    qed
  qed
qed

lemma eat_remaining:
  assumes "eat token_type p = Inr p1" and "token_type \<noteq> EOF"
  shows "remaining p1 < remaining p"
proof -
  from assms have cur: "tok_type (current_token p) \<noteq> EOF"
    by (auto simp: eat_def split: if_splits)
  from assms obtain tok rest where
    next_tok: "get_next_token (lexer p) = Inr (tok, rest)"
    and p1: "p1 = \<lparr>current_token = tok, lexer = rest\<rparr>"
    by (auto simp: eat_def split: if_splits sum.splits)
  from get_next_token_remaining [OF next_tok] p1 have "remaining p1 \<le> length (lexer p)"
    by (simp add: remaining_def)
  with cur show ?thesis by (simp add: remaining_def)
qed

lemma eat_no_OutOfFuel: "eat token_type p \<noteq> Inl OutOfFuel"
  using get_next_token_no_OutOfFuel [of "lexer p"]
  by (auto simp: eat_def split: sum.splits)

section \<open>The parser: what it builds, what it consumes, how deep it goes\<close>

lemma level_step_Inr:
  assumes "level_step operand loop p = Inr (t, p')"
  obtains node p1 where "operand p = Inr (node, p1)" and "loop node p1 = Inr (t, p')"
  using assms by (auto simp: level_step_def split: sum.splits)

lemma loop_step_Inr:
  assumes "loop_step starts tag operand again node p = Inr (t, p')"
  obtains (stop) "\<not> starts (current_token p)" and "t = node" and "p' = p"
  | (step) p1 rhs p2 where "starts (current_token p)"
      and "eat (tok_type (current_token p)) p = Inr p1"
      and "operand p1 = Inr (rhs, p2)"
      and "again (BinOp (tag (current_token p)) node rhs) p2 = Inr (t, p')"
  using assms by (auto simp: loop_step_def Let_def split: if_splits sum.splits)

lemma factor_step_Inr:
  assumes "factor_step sub inner p = Inr (t, p')"
  obtains (unary) p1 operand where "eat (tok_type (current_token p)) p = Inr p1"
      and "tok_type (current_token p) \<noteq> EOF"
      and "sub p1 = Inr (operand, p')" and "t = NegNode operand \<or> t = NotNode operand"
  | (leaf) v where "eat (tok_type (current_token p)) p = Inr p'"
      and "tok_type (current_token p) \<noteq> EOF" and "t = Leaf v"
  | (paren) p1 p2 where "eat LPAREN p = Inr p1" and "inner p1 = Inr (t, p2)"
      and "eat RPAREN p2 = Inr p'"
proof (cases "tok_type (current_token p)")
  case MINUS
  with assms unary show ?thesis
    by (auto simp: factor_step_def Let_def split: sum.splits)
next
  case NOT
  with assms unary show ?thesis
    by (auto simp: factor_step_def Let_def split: sum.splits)
next
  case LPAREN
  with assms paren show ?thesis
    by (auto simp: factor_step_def Let_def split: sum.splits)
qed (use assms leaf in \<open>auto simp: factor_step_def Let_def split: sum.splits\<close>)

lemma level_step_pure:
  assumes "level_step operand loop p = Inr (t, p')"
    and "\<And>p t p'. operand p = Inr (t, p') \<Longrightarrow> pure_expr t"
    and "\<And>node p t p'. loop node p = Inr (t, p') \<Longrightarrow> pure_expr node \<Longrightarrow> pure_expr t"
  shows "pure_expr t"
  using assms(1)
proof (cases rule: level_step_Inr)
  case (1 node p1)
  with assms(2,3) show ?thesis by blast
qed

lemma loop_step_pure:
  assumes "loop_step starts tag operand again node p = Inr (t, p')"
    and "pure_expr node"
    and "\<And>p t p'. operand p = Inr (t, p') \<Longrightarrow> pure_expr t"
    and "\<And>node p t p'. again node p = Inr (t, p') \<Longrightarrow> pure_expr node \<Longrightarrow> pure_expr t"
  shows "pure_expr t"
  using assms(1)
proof (cases rule: loop_step_Inr)
  case stop
  with assms(2) show ?thesis by simp
next
  case (step p1 rhs p2)
  from assms(3) [OF step(3)] assms(2)
  have "pure_expr (BinOp (tag (current_token p)) node rhs)" by simp
  with assms(4) [OF step(4)] show ?thesis .
qed

lemma factor_step_pure:
  assumes "factor_step sub inner p = Inr (t, p')"
    and "\<And>p t p'. sub p = Inr (t, p') \<Longrightarrow> pure_expr t"
    and "\<And>p t p'. inner p = Inr (t, p') \<Longrightarrow> pure_expr t"
  shows "pure_expr t"
  using assms(1)
proof (cases rule: factor_step_Inr)
  case (unary p1 operand)
  with assms(2) show ?thesis by auto
next
  case (leaf v)
  then show ?thesis by simp
next
  case (paren p1 p2)
  with assms(3) show ?thesis by blast
qed

lemma level_step_remaining:
  assumes "level_step operand loop p = Inr (t, p')"
    and "\<And>p t p'. operand p = Inr (t, p') \<Longrightarrow> remaining p' \<le> remaining p"
    and "\<And>node p t p'. loop node p = Inr (t, p') \<Longrightarrow> remaining p' \<le> remaining p"
  shows "remaining p' \<le> remaining p"
  using assms(1)
proof (cases rule: level_step_Inr)
  case (1 node p1)
  from assms(3) [OF 1(2)] assms(2) [OF 1(1)] show ?thesis by simp
qed

lemma loop_step_remaining:
  assumes "loop_step starts tag operand again node p = Inr (t, p')"
    and "\<And>token. starts token \<Longrightarrow> tok_type token \<noteq> EOF"
    and "\<And>p t p'. operand p = Inr (t, p') \<Longrightarrow> remaining p' \<le> remaining p"
    and "\<And>node p t p'. again node p = Inr (t, p') \<Longrightarrow> remaining p' \<le> remaining p"
  shows "remaining p' \<le> remaining p"
  using assms(1)
proof (cases rule: loop_step_Inr)
  case stop
  then show ?thesis by simp
next
  case (step p1 rhs p2)
  from eat_remaining [OF step(2) assms(2) [OF step(1)]]
    assms(3) [OF step(3)] assms(4) [OF step(4)]
  show ?thesis by simp
qed

lemma factor_step_remaining:
  assumes "factor_step sub inner p = Inr (t, p')"
    and "\<And>p t p'. sub p = Inr (t, p') \<Longrightarrow> remaining p' \<le> remaining p"
    and "\<And>p t p'. inner p = Inr (t, p') \<Longrightarrow> remaining p' \<le> remaining p"
  shows "remaining p' \<le> remaining p"
  using assms(1)
proof (cases rule: factor_step_Inr)
  case (unary p1 operand)
  from eat_remaining [OF unary(1,2)] assms(2) [OF unary(3)] show ?thesis by simp
next
  case (leaf v)
  from eat_remaining [OF leaf(1,2)] show ?thesis by simp
next
  case (paren p1 p2)
  from eat_remaining [OF paren(1)] assms(3) [OF paren(2)] eat_remaining [OF paren(3)]
  show ?thesis by simp
qed

lemma level_step_fuel:
  assumes "14 * remaining p + r < Suc n"
    and "r1 < r" and "r2 < r"
    and "\<And>p. 14 * remaining p + r1 < n \<Longrightarrow> operand p \<noteq> Inl OutOfFuel"
    and "\<And>p t p'. operand p = Inr (t, p') \<Longrightarrow> remaining p' \<le> remaining p"
    and "\<And>node p. 14 * remaining p + r2 < n \<Longrightarrow> loop node p \<noteq> Inl OutOfFuel"
  shows "level_step operand loop p \<noteq> Inl OutOfFuel"
proof (cases "operand p")
  case (Inl e)
  from assms(1,2) have "14 * remaining p + r1 < n" by simp
  from assms(4) [OF this] Inl show ?thesis by (simp add: level_step_def)
next
  case (Inr res)
  obtain node p1 where res: "res = (node, p1)" by (cases res)
  from assms(5) Inr res have "remaining p1 \<le> remaining p" by blast
  with assms(1,3) have "14 * remaining p1 + r2 < n" by simp
  from assms(6) [OF this] Inr res show ?thesis by (simp add: level_step_def)
qed

lemma loop_step_fuel:
  assumes "14 * remaining p + r < Suc n"
    and "r1 \<le> 13"
    and "\<And>token. starts token \<Longrightarrow> tok_type token \<noteq> EOF"
    and "\<And>p. 14 * remaining p + r1 < n \<Longrightarrow> operand p \<noteq> Inl OutOfFuel"
    and "\<And>p t p'. operand p = Inr (t, p') \<Longrightarrow> remaining p' \<le> remaining p"
    and "\<And>node p. 14 * remaining p + r < n \<Longrightarrow> again node p \<noteq> Inl OutOfFuel"
  shows "loop_step starts tag operand again node p \<noteq> Inl OutOfFuel"
proof (cases "starts (current_token p)")
  case False
  then show ?thesis by (simp add: loop_step_def)
next
  case True
  show ?thesis
  proof (cases "eat (tok_type (current_token p)) p")
    case (Inl e)
    with True eat_no_OutOfFuel [of "tok_type (current_token p)" p] show ?thesis
      by (simp add: loop_step_def)
  next
    case eaten: (Inr p1)
    from eat_remaining [OF eaten assms(3) [OF True]] have less: "remaining p1 < remaining p" .
    show ?thesis
    proof (cases "operand p1")
      case (Inl e)
      from less assms(1,2) have "14 * remaining p1 + r1 < n" by simp
      from assms(4) [OF this] Inl True eaten show ?thesis
        by (simp add: loop_step_def)
    next
      case (Inr res)
      obtain rhs p2 where res: "res = (rhs, p2)" by (cases res)
      from assms(5) Inr res have "remaining p2 \<le> remaining p1" by blast
      with less assms(1) have "14 * remaining p2 + r < n" by simp
      from assms(6) [OF this] Inr res True eaten show ?thesis
        by (simp add: loop_step_def)
    qed
  qed
qed

lemma factor_step_Inl:
  assumes "factor_step sub inner p = Inl e"
  obtains (eaten) token_type q where "eat token_type q = Inl e"
  | (unexpected) "e = UnexpectedToken (current_token p)"
  | (unary) token_type p1 where "eat token_type p = Inr p1" and "token_type \<noteq> EOF"
      and "sub p1 = Inl e"
  | (paren) p1 where "eat LPAREN p = Inr p1" and "inner p1 = Inl e"
proof (cases "tok_type (current_token p)")
  case MINUS
  with assms eaten unary [of MINUS] show ?thesis
    by (auto simp: factor_step_def Let_def split: sum.splits)
next
  case NOT
  with assms eaten unary [of NOT] show ?thesis
    by (auto simp: factor_step_def Let_def split: sum.splits)
next
  case LPAREN
  with assms eaten paren show ?thesis
    by (auto simp: factor_step_def Let_def split: sum.splits)
qed (use assms eaten unexpected in \<open>auto simp: factor_step_def Let_def split: sum.splits\<close>)

lemma factor_step_fuel:
  assumes "14 * remaining p + 0 < Suc n"
    and "\<And>p. 14 * remaining p + 0 < n \<Longrightarrow> sub p \<noteq> Inl OutOfFuel"
    and "\<And>p. 14 * remaining p + 13 < n \<Longrightarrow> inner p \<noteq> Inl OutOfFuel"
  shows "factor_step sub inner p \<noteq> Inl OutOfFuel"
proof
  assume "factor_step sub inner p = Inl OutOfFuel"
  then show False
  proof (cases rule: factor_step_Inl)
    case (eaten token_type q)
    with eat_no_OutOfFuel show ?thesis by blast
  next
    case unexpected
    then show ?thesis by simp
  next
    case (unary token_type p1)
    from eat_remaining [OF unary(1,2)] assms(1) have "14 * remaining p1 + 0 < n" by simp
    from assms(2) [OF this] unary(3) show ?thesis by simp
  next
    case (paren p1)
    from eat_remaining [OF paren(1)] assms(1) have "14 * remaining p1 + 13 < n" by simp
    from assms(3) [OF this] paren(2) show ?thesis by simp
  qed
qed

text \<open>
  By induction on the bound, for all fourteen methods at once: the expression
  methods build trees without assignment or print, they never give back more
  input than they got, and a bound above fourteen times what is left to read is
  never used up.
\<close>

lemma logic_or_Suc: "logic_or (Suc n) p = level_step (logic_and n) (logic_or_loop n) p"
  by (simp add: level_step_def)

lemma logic_or_loop_Suc:
  "logic_or_loop (Suc n) node p =
     loop_step (\<lambda>token. tok_type token = OR)
       (\<lambda>token. Or)
       (logic_and n) (logic_or_loop n) node p"
  by (simp add: loop_step_def)

lemma logic_and_Suc: "logic_and (Suc n) p = level_step (equality n) (logic_and_loop n) p"
  by (simp add: level_step_def)

lemma logic_and_loop_Suc:
  "logic_and_loop (Suc n) node p =
     loop_step (\<lambda>token. tok_type token = AND)
       (\<lambda>token. And)
       (equality n) (logic_and_loop n) node p"
  by (simp add: loop_step_def)

lemma equality_Suc: "equality (Suc n) p = level_step (comparison n) (equality_loop n) p"
  by (simp add: level_step_def)

lemma equality_loop_Suc:
  "equality_loop (Suc n) node p =
     loop_step (\<lambda>token. tok_type token = EQ \<or> tok_type token = NEQ)
       (\<lambda>token. if tok_type token = EQ then Eq else Neq)
       (comparison n) (equality_loop n) node p"
  by (simp add: loop_step_def)

lemma comparison_Suc: "comparison (Suc n) p = level_step (additive n) (comparison_loop n) p"
  by (simp add: level_step_def)

lemma comparison_loop_Suc:
  "comparison_loop (Suc n) node p =
     loop_step (\<lambda>token. tok_type token = LT \<or> tok_type token = GT \<or> tok_type token = LE \<or> tok_type token = GE)
       (\<lambda>token. if tok_type token = LT then Lt else if tok_type token = GT then Gt
          else if tok_type token = LE then Le else Ge)
       (additive n) (comparison_loop n) node p"
  by (simp add: loop_step_def)

lemma additive_Suc: "additive (Suc n) p = level_step (term_rule n) (additive_loop n) p"
  by (simp add: level_step_def)

lemma additive_loop_Suc:
  "additive_loop (Suc n) node p =
     loop_step (\<lambda>token. tok_type token = PLUS \<or> tok_type token = MINUS)
       (\<lambda>token. if tok_type token = PLUS then Add else Sub)
       (term_rule n) (additive_loop n) node p"
  by (simp add: loop_step_def)

lemma term_rule_Suc: "term_rule (Suc n) p = level_step (factor n) (term_rule_loop n) p"
  by (simp add: level_step_def)

lemma term_rule_loop_Suc:
  "term_rule_loop (Suc n) node p =
     loop_step (\<lambda>token. tok_type token = MUL \<or> tok_type token = DIV)
       (\<lambda>token. if tok_type token = MUL then Mul else Div)
       (factor n) (term_rule_loop n) node p"
  by (simp add: loop_step_def)

lemma factor_Suc: "factor (Suc n) p = factor_step (factor n) (expr n) p"
  by (simp add: factor_step_def)

lemma parser_pure_all:
  "(\<forall>p t p'. expr n p = Inr (t, p') \<longrightarrow> pure_expr t) \<and>
   (\<forall>p t p'. logic_or n p = Inr (t, p') \<longrightarrow> pure_expr t) \<and>
   (\<forall>node p t p'. logic_or_loop n node p = Inr (t, p') \<longrightarrow> pure_expr node \<longrightarrow> pure_expr t) \<and>
   (\<forall>p t p'. logic_and n p = Inr (t, p') \<longrightarrow> pure_expr t) \<and>
   (\<forall>node p t p'. logic_and_loop n node p = Inr (t, p') \<longrightarrow> pure_expr node \<longrightarrow> pure_expr t) \<and>
   (\<forall>p t p'. equality n p = Inr (t, p') \<longrightarrow> pure_expr t) \<and>
   (\<forall>node p t p'. equality_loop n node p = Inr (t, p') \<longrightarrow> pure_expr node \<longrightarrow> pure_expr t) \<and>
   (\<forall>p t p'. comparison n p = Inr (t, p') \<longrightarrow> pure_expr t) \<and>
   (\<forall>node p t p'. comparison_loop n node p = Inr (t, p') \<longrightarrow> pure_expr node \<longrightarrow> pure_expr t) \<and>
   (\<forall>p t p'. additive n p = Inr (t, p') \<longrightarrow> pure_expr t) \<and>
   (\<forall>node p t p'. additive_loop n node p = Inr (t, p') \<longrightarrow> pure_expr node \<longrightarrow> pure_expr t) \<and>
   (\<forall>p t p'. term_rule n p = Inr (t, p') \<longrightarrow> pure_expr t) \<and>
   (\<forall>node p t p'. term_rule_loop n node p = Inr (t, p') \<longrightarrow> pure_expr node \<longrightarrow> pure_expr t) \<and>
   (\<forall>p t p'. factor n p = Inr (t, p') \<longrightarrow> pure_expr t)"
proof (induction n)
  case 0
  show ?case by simp
next
  case (Suc n)
  note ih_expr = Suc.IH [THEN conjunct1, rule_format]
    and ih_logic_or = Suc.IH [THEN conjunct2, THEN conjunct1, rule_format]
    and ih_logic_or_loop = Suc.IH [THEN conjunct2, THEN conjunct2, THEN conjunct1, rule_format]
    and ih_logic_and = Suc.IH [THEN conjunct2, THEN conjunct2, THEN conjunct2, THEN conjunct1, rule_format]
    and ih_logic_and_loop = Suc.IH [THEN conjunct2, THEN conjunct2, THEN conjunct2, THEN conjunct2, THEN conjunct1, rule_format]
    and ih_equality = Suc.IH [THEN conjunct2, THEN conjunct2, THEN conjunct2, THEN conjunct2, THEN conjunct2, THEN conjunct1, rule_format]
    and ih_equality_loop = Suc.IH [THEN conjunct2, THEN conjunct2, THEN conjunct2, THEN conjunct2, THEN conjunct2, THEN conjunct2, THEN conjunct1, rule_format]
    and ih_comparison = Suc.IH [THEN conjunct2, THEN conjunct2, THEN conjunct2, THEN conjunct2, THEN conjunct2, THEN conjunct2, THEN conjunct2, THEN conjunct1, rule_format]
    and ih_comparison_loop = Suc.IH [THEN conjunct2, THEN conjunct2, THEN conjunct2, THEN conjunct2, THEN conjunct2, THEN conjunct2, THEN conjunct2, THEN conjunct2, THEN conjunct1, rule_format]
    and ih_additive = Suc.IH [THEN conjunct2, THEN conjunct2, THEN conjunct2, THEN conjunct2, THEN conjunct2, THEN conjunct2, THEN conjunct2, THEN conjunct2, THEN conjunct2, THEN conjunct1, rule_format]
    and ih_additive_loop = Suc.IH [THEN conjunct2, THEN conjunct2, THEN conjunct2, THEN conjunct2, THEN conjunct2, THEN conjunct2, THEN conjunct2, THEN conjunct2, THEN conjunct2, THEN conjunct2, THEN conjunct1, rule_format]
    and ih_term_rule = Suc.IH [THEN conjunct2, THEN conjunct2, THEN conjunct2, THEN conjunct2, THEN conjunct2, THEN conjunct2, THEN conjunct2, THEN conjunct2, THEN conjunct2, THEN conjunct2, THEN conjunct2, THEN conjunct1, rule_format]
    and ih_term_rule_loop = Suc.IH [THEN conjunct2, THEN conjunct2, THEN conjunct2, THEN conjunct2, THEN conjunct2, THEN conjunct2, THEN conjunct2, THEN conjunct2, THEN conjunct2, THEN conjunct2, THEN conjunct2, THEN conjunct2, THEN conjunct1, rule_format]
    and ih_factor = Suc.IH [THEN conjunct2, THEN conjunct2, THEN conjunct2, THEN conjunct2, THEN conjunct2, THEN conjunct2, THEN conjunct2, THEN conjunct2, THEN conjunct2, THEN conjunct2, THEN conjunct2, THEN conjunct2, THEN conjunct2, rule_format]
  have s_expr: "expr (Suc n) p = Inr (t, p') \<Longrightarrow> pure_expr t" for p t p'
    using ih_logic_or [of p t p'] by simp

  have s_logic_or: "logic_or (Suc n) p = Inr (t, p') \<Longrightarrow> pure_expr t" for p t p'
    unfolding logic_or_Suc by (erule level_step_pure [OF _ ih_logic_and ih_logic_or_loop])
  have s_logic_or_loop: "logic_or_loop (Suc n) node p = Inr (t, p') \<Longrightarrow> pure_expr node \<Longrightarrow> pure_expr t"
    for node p t p'
    unfolding logic_or_loop_Suc by (erule loop_step_pure [OF _ _ ih_logic_and ih_logic_or_loop])

  have s_logic_and: "logic_and (Suc n) p = Inr (t, p') \<Longrightarrow> pure_expr t" for p t p'
    unfolding logic_and_Suc by (erule level_step_pure [OF _ ih_equality ih_logic_and_loop])
  have s_logic_and_loop: "logic_and_loop (Suc n) node p = Inr (t, p') \<Longrightarrow> pure_expr node \<Longrightarrow> pure_expr t"
    for node p t p'
    unfolding logic_and_loop_Suc by (erule loop_step_pure [OF _ _ ih_equality ih_logic_and_loop])

  have s_equality: "equality (Suc n) p = Inr (t, p') \<Longrightarrow> pure_expr t" for p t p'
    unfolding equality_Suc by (erule level_step_pure [OF _ ih_comparison ih_equality_loop])
  have s_equality_loop: "equality_loop (Suc n) node p = Inr (t, p') \<Longrightarrow> pure_expr node \<Longrightarrow> pure_expr t"
    for node p t p'
    unfolding equality_loop_Suc by (erule loop_step_pure [OF _ _ ih_comparison ih_equality_loop])

  have s_comparison: "comparison (Suc n) p = Inr (t, p') \<Longrightarrow> pure_expr t" for p t p'
    unfolding comparison_Suc by (erule level_step_pure [OF _ ih_additive ih_comparison_loop])
  have s_comparison_loop: "comparison_loop (Suc n) node p = Inr (t, p') \<Longrightarrow> pure_expr node \<Longrightarrow> pure_expr t"
    for node p t p'
    unfolding comparison_loop_Suc by (erule loop_step_pure [OF _ _ ih_additive ih_comparison_loop])

  have s_additive: "additive (Suc n) p = Inr (t, p') \<Longrightarrow> pure_expr t" for p t p'
    unfolding additive_Suc by (erule level_step_pure [OF _ ih_term_rule ih_additive_loop])
  have s_additive_loop: "additive_loop (Suc n) node p = Inr (t, p') \<Longrightarrow> pure_expr node \<Longrightarrow> pure_expr t"
    for node p t p'
    unfolding additive_loop_Suc by (erule loop_step_pure [OF _ _ ih_term_rule ih_additive_loop])

  have s_term_rule: "term_rule (Suc n) p = Inr (t, p') \<Longrightarrow> pure_expr t" for p t p'
    unfolding term_rule_Suc by (erule level_step_pure [OF _ ih_factor ih_term_rule_loop])
  have s_term_rule_loop: "term_rule_loop (Suc n) node p = Inr (t, p') \<Longrightarrow> pure_expr node \<Longrightarrow> pure_expr t"
    for node p t p'
    unfolding term_rule_loop_Suc by (erule loop_step_pure [OF _ _ ih_factor ih_term_rule_loop])

  have s_factor: "factor (Suc n) p = Inr (t, p') \<Longrightarrow> pure_expr t" for p t p'
    unfolding factor_Suc by (erule factor_step_pure [OF _ ih_factor ih_expr])
  show ?case
    by (intro conjI allI impI) (erule s_expr,
      erule s_logic_or,
      erule (1) s_logic_or_loop,
      erule s_logic_and,
      erule (1) s_logic_and_loop,
      erule s_equality,
      erule (1) s_equality_loop,
      erule s_comparison,
      erule (1) s_comparison_loop,
      erule s_additive,
      erule (1) s_additive_loop,
      erule s_term_rule,
      erule (1) s_term_rule_loop,
      erule s_factor)
qed

lemma parser_remaining_all:
  "(\<forall>p t p'. expr n p = Inr (t, p') \<longrightarrow> remaining p' \<le> remaining p) \<and>
   (\<forall>p t p'. logic_or n p = Inr (t, p') \<longrightarrow> remaining p' \<le> remaining p) \<and>
   (\<forall>node p t p'. logic_or_loop n node p = Inr (t, p') \<longrightarrow> remaining p' \<le> remaining p) \<and>
   (\<forall>p t p'. logic_and n p = Inr (t, p') \<longrightarrow> remaining p' \<le> remaining p) \<and>
   (\<forall>node p t p'. logic_and_loop n node p = Inr (t, p') \<longrightarrow> remaining p' \<le> remaining p) \<and>
   (\<forall>p t p'. equality n p = Inr (t, p') \<longrightarrow> remaining p' \<le> remaining p) \<and>
   (\<forall>node p t p'. equality_loop n node p = Inr (t, p') \<longrightarrow> remaining p' \<le> remaining p) \<and>
   (\<forall>p t p'. comparison n p = Inr (t, p') \<longrightarrow> remaining p' \<le> remaining p) \<and>
   (\<forall>node p t p'. comparison_loop n node p = Inr (t, p') \<longrightarrow> remaining p' \<le> remaining p) \<and>
   (\<forall>p t p'. additive n p = Inr (t, p') \<longrightarrow> remaining p' \<le> remaining p) \<and>
   (\<forall>node p t p'. additive_loop n node p = Inr (t, p') \<longrightarrow> remaining p' \<le> remaining p) \<and>
   (\<forall>p t p'. term_rule n p = Inr (t, p') \<longrightarrow> remaining p' \<le> remaining p) \<and>
   (\<forall>node p t p'. term_rule_loop n node p = Inr (t, p') \<longrightarrow> remaining p' \<le> remaining p) \<and>
   (\<forall>p t p'. factor n p = Inr (t, p') \<longrightarrow> remaining p' \<le> remaining p)"
proof (induction n)
  case 0
  show ?case by simp
next
  case (Suc n)
  note ih_expr = Suc.IH [THEN conjunct1, rule_format]
    and ih_logic_or = Suc.IH [THEN conjunct2, THEN conjunct1, rule_format]
    and ih_logic_or_loop = Suc.IH [THEN conjunct2, THEN conjunct2, THEN conjunct1, rule_format]
    and ih_logic_and = Suc.IH [THEN conjunct2, THEN conjunct2, THEN conjunct2, THEN conjunct1, rule_format]
    and ih_logic_and_loop = Suc.IH [THEN conjunct2, THEN conjunct2, THEN conjunct2, THEN conjunct2, THEN conjunct1, rule_format]
    and ih_equality = Suc.IH [THEN conjunct2, THEN conjunct2, THEN conjunct2, THEN conjunct2, THEN conjunct2, THEN conjunct1, rule_format]
    and ih_equality_loop = Suc.IH [THEN conjunct2, THEN conjunct2, THEN conjunct2, THEN conjunct2, THEN conjunct2, THEN conjunct2, THEN conjunct1, rule_format]
    and ih_comparison = Suc.IH [THEN conjunct2, THEN conjunct2, THEN conjunct2, THEN conjunct2, THEN conjunct2, THEN conjunct2, THEN conjunct2, THEN conjunct1, rule_format]
    and ih_comparison_loop = Suc.IH [THEN conjunct2, THEN conjunct2, THEN conjunct2, THEN conjunct2, THEN conjunct2, THEN conjunct2, THEN conjunct2, THEN conjunct2, THEN conjunct1, rule_format]
    and ih_additive = Suc.IH [THEN conjunct2, THEN conjunct2, THEN conjunct2, THEN conjunct2, THEN conjunct2, THEN conjunct2, THEN conjunct2, THEN conjunct2, THEN conjunct2, THEN conjunct1, rule_format]
    and ih_additive_loop = Suc.IH [THEN conjunct2, THEN conjunct2, THEN conjunct2, THEN conjunct2, THEN conjunct2, THEN conjunct2, THEN conjunct2, THEN conjunct2, THEN conjunct2, THEN conjunct2, THEN conjunct1, rule_format]
    and ih_term_rule = Suc.IH [THEN conjunct2, THEN conjunct2, THEN conjunct2, THEN conjunct2, THEN conjunct2, THEN conjunct2, THEN conjunct2, THEN conjunct2, THEN conjunct2, THEN conjunct2, THEN conjunct2, THEN conjunct1, rule_format]
    and ih_term_rule_loop = Suc.IH [THEN conjunct2, THEN conjunct2, THEN conjunct2, THEN conjunct2, THEN conjunct2, THEN conjunct2, THEN conjunct2, THEN conjunct2, THEN conjunct2, THEN conjunct2, THEN conjunct2, THEN conjunct2, THEN conjunct1, rule_format]
    and ih_factor = Suc.IH [THEN conjunct2, THEN conjunct2, THEN conjunct2, THEN conjunct2, THEN conjunct2, THEN conjunct2, THEN conjunct2, THEN conjunct2, THEN conjunct2, THEN conjunct2, THEN conjunct2, THEN conjunct2, THEN conjunct2, rule_format]
  have s_expr: "expr (Suc n) p = Inr (t, p') \<Longrightarrow> remaining p' \<le> remaining p" for p t p'
    using ih_logic_or [of p t p'] by simp

  have s_logic_or: "logic_or (Suc n) p = Inr (t, p') \<Longrightarrow> remaining p' \<le> remaining p" for p t p'
    unfolding logic_or_Suc by (erule level_step_remaining [OF _ ih_logic_and ih_logic_or_loop])
  have s_logic_or_loop: "logic_or_loop (Suc n) node p = Inr (t, p') \<Longrightarrow> remaining p' \<le> remaining p"
    for node p t p'
    unfolding logic_or_loop_Suc by (erule loop_step_remaining [OF _ _ ih_logic_and ih_logic_or_loop]) auto

  have s_logic_and: "logic_and (Suc n) p = Inr (t, p') \<Longrightarrow> remaining p' \<le> remaining p" for p t p'
    unfolding logic_and_Suc by (erule level_step_remaining [OF _ ih_equality ih_logic_and_loop])
  have s_logic_and_loop: "logic_and_loop (Suc n) node p = Inr (t, p') \<Longrightarrow> remaining p' \<le> remaining p"
    for node p t p'
    unfolding logic_and_loop_Suc by (erule loop_step_remaining [OF _ _ ih_equality ih_logic_and_loop]) auto

  have s_equality: "equality (Suc n) p = Inr (t, p') \<Longrightarrow> remaining p' \<le> remaining p" for p t p'
    unfolding equality_Suc by (erule level_step_remaining [OF _ ih_comparison ih_equality_loop])
  have s_equality_loop: "equality_loop (Suc n) node p = Inr (t, p') \<Longrightarrow> remaining p' \<le> remaining p"
    for node p t p'
    unfolding equality_loop_Suc by (erule loop_step_remaining [OF _ _ ih_comparison ih_equality_loop]) auto

  have s_comparison: "comparison (Suc n) p = Inr (t, p') \<Longrightarrow> remaining p' \<le> remaining p" for p t p'
    unfolding comparison_Suc by (erule level_step_remaining [OF _ ih_additive ih_comparison_loop])
  have s_comparison_loop: "comparison_loop (Suc n) node p = Inr (t, p') \<Longrightarrow> remaining p' \<le> remaining p"
    for node p t p'
    unfolding comparison_loop_Suc by (erule loop_step_remaining [OF _ _ ih_additive ih_comparison_loop]) auto

  have s_additive: "additive (Suc n) p = Inr (t, p') \<Longrightarrow> remaining p' \<le> remaining p" for p t p'
    unfolding additive_Suc by (erule level_step_remaining [OF _ ih_term_rule ih_additive_loop])
  have s_additive_loop: "additive_loop (Suc n) node p = Inr (t, p') \<Longrightarrow> remaining p' \<le> remaining p"
    for node p t p'
    unfolding additive_loop_Suc by (erule loop_step_remaining [OF _ _ ih_term_rule ih_additive_loop]) auto

  have s_term_rule: "term_rule (Suc n) p = Inr (t, p') \<Longrightarrow> remaining p' \<le> remaining p" for p t p'
    unfolding term_rule_Suc by (erule level_step_remaining [OF _ ih_factor ih_term_rule_loop])
  have s_term_rule_loop: "term_rule_loop (Suc n) node p = Inr (t, p') \<Longrightarrow> remaining p' \<le> remaining p"
    for node p t p'
    unfolding term_rule_loop_Suc by (erule loop_step_remaining [OF _ _ ih_factor ih_term_rule_loop]) auto

  have s_factor: "factor (Suc n) p = Inr (t, p') \<Longrightarrow> remaining p' \<le> remaining p" for p t p'
    unfolding factor_Suc by (erule factor_step_remaining [OF _ ih_factor ih_expr])
  show ?case
    by (intro conjI allI impI) (erule s_expr,
      erule s_logic_or,
      erule s_logic_or_loop,
      erule s_logic_and,
      erule s_logic_and_loop,
      erule s_equality,
      erule s_equality_loop,
      erule s_comparison,
      erule s_comparison_loop,
      erule s_additive,
      erule s_additive_loop,
      erule s_term_rule,
      erule s_term_rule_loop,
      erule s_factor)
qed

lemmas expr_pure = parser_pure_all [THEN conjunct1, rule_format]

lemmas expr_remaining = parser_remaining_all [THEN conjunct1, rule_format]
  and logic_or_remaining = parser_remaining_all [THEN conjunct2, THEN conjunct1, rule_format]
  and logic_or_loop_remaining = parser_remaining_all [THEN conjunct2, THEN conjunct2, THEN conjunct1, rule_format]
  and logic_and_remaining = parser_remaining_all [THEN conjunct2, THEN conjunct2, THEN conjunct2, THEN conjunct1, rule_format]
  and logic_and_loop_remaining = parser_remaining_all [THEN conjunct2, THEN conjunct2, THEN conjunct2, THEN conjunct2, THEN conjunct1, rule_format]
  and equality_remaining = parser_remaining_all [THEN conjunct2, THEN conjunct2, THEN conjunct2, THEN conjunct2, THEN conjunct2, THEN conjunct1, rule_format]
  and equality_loop_remaining = parser_remaining_all [THEN conjunct2, THEN conjunct2, THEN conjunct2, THEN conjunct2, THEN conjunct2, THEN conjunct2, THEN conjunct1, rule_format]
  and comparison_remaining = parser_remaining_all [THEN conjunct2, THEN conjunct2, THEN conjunct2, THEN conjunct2, THEN conjunct2, THEN conjunct2, THEN conjunct2, THEN conjunct1, rule_format]
  and comparison_loop_remaining = parser_remaining_all [THEN conjunct2, THEN conjunct2, THEN conjunct2, THEN conjunct2, THEN conjunct2, THEN conjunct2, THEN conjunct2, THEN conjunct2, THEN conjunct1, rule_format]
  and additive_remaining = parser_remaining_all [THEN conjunct2, THEN conjunct2, THEN conjunct2, THEN conjunct2, THEN conjunct2, THEN conjunct2, THEN conjunct2, THEN conjunct2, THEN conjunct2, THEN conjunct1, rule_format]
  and additive_loop_remaining = parser_remaining_all [THEN conjunct2, THEN conjunct2, THEN conjunct2, THEN conjunct2, THEN conjunct2, THEN conjunct2, THEN conjunct2, THEN conjunct2, THEN conjunct2, THEN conjunct2, THEN conjunct1, rule_format]
  and term_rule_remaining = parser_remaining_all [THEN conjunct2, THEN conjunct2, THEN conjunct2, THEN conjunct2, THEN conjunct2, THEN conjunct2, THEN conjunct2, THEN conjunct2, THEN conjunct2, THEN conjunct2, THEN conjunct2, THEN conjunct1, rule_format]
  and term_rule_loop_remaining = parser_remaining_all [THEN conjunct2, THEN conjunct2, THEN conjunct2, THEN conjunct2, THEN conjunct2, THEN conjunct2, THEN conjunct2, THEN conjunct2, THEN conjunct2, THEN conjunct2, THEN conjunct2, THEN conjunct2, THEN conjunct1, rule_format]
  and factor_remaining = parser_remaining_all [THEN conjunct2, THEN conjunct2, THEN conjunct2, THEN conjunct2, THEN conjunct2, THEN conjunct2, THEN conjunct2, THEN conjunct2, THEN conjunct2, THEN conjunct2, THEN conjunct2, THEN conjunct2, THEN conjunct2, rule_format]

lemma parser_fuel_all:
  "(\<forall>p. 14 * remaining p + 13 < n \<longrightarrow> expr n p \<noteq> Inl OutOfFuel) \<and>
   (\<forall>p. 14 * remaining p + 12 < n \<longrightarrow> logic_or n p \<noteq> Inl OutOfFuel) \<and>
   (\<forall>node p. 14 * remaining p + 11 < n \<longrightarrow> logic_or_loop n node p \<noteq> Inl OutOfFuel) \<and>
   (\<forall>p. 14 * remaining p + 10 < n \<longrightarrow> logic_and n p \<noteq> Inl OutOfFuel) \<and>
   (\<forall>node p. 14 * remaining p + 9 < n \<longrightarrow> logic_and_loop n node p \<noteq> Inl OutOfFuel) \<and>
   (\<forall>p. 14 * remaining p + 8 < n \<longrightarrow> equality n p \<noteq> Inl OutOfFuel) \<and>
   (\<forall>node p. 14 * remaining p + 7 < n \<longrightarrow> equality_loop n node p \<noteq> Inl OutOfFuel) \<and>
   (\<forall>p. 14 * remaining p + 6 < n \<longrightarrow> comparison n p \<noteq> Inl OutOfFuel) \<and>
   (\<forall>node p. 14 * remaining p + 5 < n \<longrightarrow> comparison_loop n node p \<noteq> Inl OutOfFuel) \<and>
   (\<forall>p. 14 * remaining p + 4 < n \<longrightarrow> additive n p \<noteq> Inl OutOfFuel) \<and>
   (\<forall>node p. 14 * remaining p + 3 < n \<longrightarrow> additive_loop n node p \<noteq> Inl OutOfFuel) \<and>
   (\<forall>p. 14 * remaining p + 2 < n \<longrightarrow> term_rule n p \<noteq> Inl OutOfFuel) \<and>
   (\<forall>node p. 14 * remaining p + 1 < n \<longrightarrow> term_rule_loop n node p \<noteq> Inl OutOfFuel) \<and>
   (\<forall>p. 14 * remaining p + 0 < n \<longrightarrow> factor n p \<noteq> Inl OutOfFuel)"
proof (induction n)
  case 0
  show ?case by simp
next
  case (Suc n)
  note ih_expr = Suc.IH [THEN conjunct1, rule_format]
    and ih_logic_or = Suc.IH [THEN conjunct2, THEN conjunct1, rule_format]
    and ih_logic_or_loop = Suc.IH [THEN conjunct2, THEN conjunct2, THEN conjunct1, rule_format]
    and ih_logic_and = Suc.IH [THEN conjunct2, THEN conjunct2, THEN conjunct2, THEN conjunct1, rule_format]
    and ih_logic_and_loop = Suc.IH [THEN conjunct2, THEN conjunct2, THEN conjunct2, THEN conjunct2, THEN conjunct1, rule_format]
    and ih_equality = Suc.IH [THEN conjunct2, THEN conjunct2, THEN conjunct2, THEN conjunct2, THEN conjunct2, THEN conjunct1, rule_format]
    and ih_equality_loop = Suc.IH [THEN conjunct2, THEN conjunct2, THEN conjunct2, THEN conjunct2, THEN conjunct2, THEN conjunct2, THEN conjunct1, rule_format]
    and ih_comparison = Suc.IH [THEN conjunct2, THEN conjunct2, THEN conjunct2, THEN conjunct2, THEN conjunct2, THEN conjunct2, THEN conjunct2, THEN conjunct1, rule_format]
    and ih_comparison_loop = Suc.IH [THEN conjunct2, THEN conjunct2, THEN conjunct2, THEN conjunct2, THEN conjunct2, THEN conjunct2, THEN conjunct2, THEN conjunct2, THEN conjunct1, rule_format]
    and ih_additive = Suc.IH [THEN conjunct2, THEN conjunct2, THEN conjunct2, THEN conjunct2, THEN conjunct2, THEN conjunct2, THEN conjunct2, THEN conjunct2, THEN conjunct2, THEN conjunct1, rule_format]
    and ih_additive_loop = Suc.IH [THEN conjunct2, THEN conjunct2, THEN conjunct2, THEN conjunct2, THEN conjunct2, THEN conjunct2, THEN conjunct2, THEN conjunct2, THEN conjunct2, THEN conjunct2, THEN conjunct1, rule_format]
    and ih_term_rule = Suc.IH [THEN conjunct2, THEN conjunct2, THEN conjunct2, THEN conjunct2, THEN conjunct2, THEN conjunct2, THEN conjunct2, THEN conjunct2, THEN conjunct2, THEN conjunct2, THEN conjunct2, THEN conjunct1, rule_format]
    and ih_term_rule_loop = Suc.IH [THEN conjunct2, THEN conjunct2, THEN conjunct2, THEN conjunct2, THEN conjunct2, THEN conjunct2, THEN conjunct2, THEN conjunct2, THEN conjunct2, THEN conjunct2, THEN conjunct2, THEN conjunct2, THEN conjunct1, rule_format]
    and ih_factor = Suc.IH [THEN conjunct2, THEN conjunct2, THEN conjunct2, THEN conjunct2, THEN conjunct2, THEN conjunct2, THEN conjunct2, THEN conjunct2, THEN conjunct2, THEN conjunct2, THEN conjunct2, THEN conjunct2, THEN conjunct2, rule_format]
  have s_expr: "14 * remaining p + 13 < Suc n \<Longrightarrow> expr (Suc n) p \<noteq> Inl OutOfFuel" for p
    using ih_logic_or [of p] by simp

  have s_logic_or: "14 * remaining p + 12 < Suc n \<Longrightarrow> logic_or (Suc n) p \<noteq> Inl OutOfFuel" for p
    unfolding logic_or_Suc
    by (erule level_step_fuel [where r = 12 and ?r1.0 = 10 and ?r2.0 = 11,
          OF _ _ _ ih_logic_and logic_and_remaining ih_logic_or_loop])
       simp_all
  have s_logic_or_loop: "14 * remaining p + 11 < Suc n \<Longrightarrow> logic_or_loop (Suc n) node p \<noteq> Inl OutOfFuel"
    for node p
    unfolding logic_or_loop_Suc
    by (erule loop_step_fuel [where r = 11 and ?r1.0 = 10,
          OF _ _ _ ih_logic_and logic_and_remaining ih_logic_or_loop])
       auto

  have s_logic_and: "14 * remaining p + 10 < Suc n \<Longrightarrow> logic_and (Suc n) p \<noteq> Inl OutOfFuel" for p
    unfolding logic_and_Suc
    by (erule level_step_fuel [where r = 10 and ?r1.0 = 8 and ?r2.0 = 9,
          OF _ _ _ ih_equality equality_remaining ih_logic_and_loop])
       simp_all
  have s_logic_and_loop: "14 * remaining p + 9 < Suc n \<Longrightarrow> logic_and_loop (Suc n) node p \<noteq> Inl OutOfFuel"
    for node p
    unfolding logic_and_loop_Suc
    by (erule loop_step_fuel [where r = 9 and ?r1.0 = 8,
          OF _ _ _ ih_equality equality_remaining ih_logic_and_loop])
       auto

  have s_equality: "14 * remaining p + 8 < Suc n \<Longrightarrow> equality (Suc n) p \<noteq> Inl OutOfFuel" for p
    unfolding equality_Suc
    by (erule level_step_fuel [where r = 8 and ?r1.0 = 6 and ?r2.0 = 7,
          OF _ _ _ ih_comparison comparison_remaining ih_equality_loop])
       simp_all
  have s_equality_loop: "14 * remaining p + 7 < Suc n \<Longrightarrow> equality_loop (Suc n) node p \<noteq> Inl OutOfFuel"
    for node p
    unfolding equality_loop_Suc
    by (erule loop_step_fuel [where r = 7 and ?r1.0 = 6,
          OF _ _ _ ih_comparison comparison_remaining ih_equality_loop])
       auto

  have s_comparison: "14 * remaining p + 6 < Suc n \<Longrightarrow> comparison (Suc n) p \<noteq> Inl OutOfFuel" for p
    unfolding comparison_Suc
    by (erule level_step_fuel [where r = 6 and ?r1.0 = 4 and ?r2.0 = 5,
          OF _ _ _ ih_additive additive_remaining ih_comparison_loop])
       simp_all
  have s_comparison_loop: "14 * remaining p + 5 < Suc n \<Longrightarrow> comparison_loop (Suc n) node p \<noteq> Inl OutOfFuel"
    for node p
    unfolding comparison_loop_Suc
    by (erule loop_step_fuel [where r = 5 and ?r1.0 = 4,
          OF _ _ _ ih_additive additive_remaining ih_comparison_loop])
       auto

  have s_additive: "14 * remaining p + 4 < Suc n \<Longrightarrow> additive (Suc n) p \<noteq> Inl OutOfFuel" for p
    unfolding additive_Suc
    by (erule level_step_fuel [where r = 4 and ?r1.0 = 2 and ?r2.0 = 3,
          OF _ _ _ ih_term_rule term_rule_remaining ih_additive_loop])
       simp_all
  have s_additive_loop: "14 * remaining p + 3 < Suc n \<Longrightarrow> additive_loop (Suc n) node p \<noteq> Inl OutOfFuel"
    for node p
    unfolding additive_loop_Suc
    by (erule loop_step_fuel [where r = 3 and ?r1.0 = 2,
          OF _ _ _ ih_term_rule term_rule_remaining ih_additive_loop])
       auto

  have s_term_rule: "14 * remaining p + 2 < Suc n \<Longrightarrow> term_rule (Suc n) p \<noteq> Inl OutOfFuel" for p
    unfolding term_rule_Suc
    by (erule level_step_fuel [where r = 2 and ?r1.0 = 0 and ?r2.0 = 1,
          OF _ _ _ ih_factor factor_remaining ih_term_rule_loop])
       simp_all
  have s_term_rule_loop: "14 * remaining p + 1 < Suc n \<Longrightarrow> term_rule_loop (Suc n) node p \<noteq> Inl OutOfFuel"
    for node p
    unfolding term_rule_loop_Suc
    by (erule loop_step_fuel [where r = 1 and ?r1.0 = 0,
          OF _ _ _ ih_factor factor_remaining ih_term_rule_loop])
       auto

  have s_factor: "14 * remaining p + 0 < Suc n \<Longrightarrow> factor (Suc n) p \<noteq> Inl OutOfFuel" for p
    unfolding factor_Suc
    by (erule factor_step_fuel [OF _ ih_factor ih_expr])
  show ?case
    by (intro conjI allI impI) (erule s_expr,
      erule s_logic_or,
      erule s_logic_or_loop,
      erule s_logic_and,
      erule s_logic_and_loop,
      erule s_equality,
      erule s_equality_loop,
      erule s_comparison,
      erule s_comparison_loop,
      erule s_additive,
      erule s_additive_loop,
      erule s_term_rule,
      erule s_term_rule_loop,
      erule s_factor)
qed

lemma expr_enough_fuel: "expr (enough_fuel p) p \<noteq> Inl OutOfFuel"
proof -
  have "14 * remaining p + 13 < enough_fuel p"
    by (simp add: enough_fuel_def)
  then show ?thesis
    by (rule parser_fuel_all [THEN conjunct1, rule_format])
qed

text \<open>
  A result other than \<open>OutOfFuel\<close> is the same under every larger bound, so the
  bound that \<open>parse\<close> starts with can be replaced by any larger one.
\<close>

lemma level_step_mono:
  assumes "level_step operand loop p \<noteq> Inl OutOfFuel"
    and "\<And>p. operand p \<noteq> Inl OutOfFuel \<Longrightarrow> operand' p = operand p"
    and "\<And>node p. loop node p \<noteq> Inl OutOfFuel \<Longrightarrow> loop' node p = loop node p"
  shows "level_step operand' loop' p = level_step operand loop p"
proof (cases "operand p")
  case (Inl e)
  with assms(1) have "operand p \<noteq> Inl OutOfFuel" by (simp add: level_step_def)
  from assms(2) [OF this] Inl show ?thesis by (simp add: level_step_def)
next
  case (Inr res)
  then have same: "operand' p = operand p" using assms(2) by simp
  obtain node p1 where res: "res = (node, p1)" by (cases res)
  with Inr assms(1) have "loop node p1 \<noteq> Inl OutOfFuel" by (simp add: level_step_def)
  from assms(3) [OF this] same Inr res show ?thesis by (simp add: level_step_def)
qed

lemma loop_step_mono:
  assumes "loop_step starts tag operand again node p \<noteq> Inl OutOfFuel"
    and "\<And>p. operand p \<noteq> Inl OutOfFuel \<Longrightarrow> operand' p = operand p"
    and "\<And>node p. again node p \<noteq> Inl OutOfFuel \<Longrightarrow> again' node p = again node p"
  shows "loop_step starts tag operand' again' node p = loop_step starts tag operand again node p"
proof (cases "starts (current_token p)")
  case False
  then show ?thesis by (simp add: loop_step_def)
next
  case True
  show ?thesis
  proof (cases "eat (tok_type (current_token p)) p")
    case (Inl e)
    with True show ?thesis by (simp add: loop_step_def)
  next
    case eaten: (Inr p1)
    show ?thesis
    proof (cases "operand p1")
      case (Inl e)
      with True eaten assms(1) have "operand p1 \<noteq> Inl OutOfFuel"
        by (simp add: loop_step_def)
      from assms(2) [OF this] True eaten Inl show ?thesis by (simp add: loop_step_def)
    next
      case (Inr res)
      then have same: "operand' p1 = operand p1" using assms(2) by simp
      obtain rhs p2 where res: "res = (rhs, p2)" by (cases res)
      with True eaten Inr assms(1)
      have "again (BinOp (tag (current_token p)) node rhs) p2 \<noteq> Inl OutOfFuel"
        by (simp add: loop_step_def)
      from assms(3) [OF this] same True eaten Inr res show ?thesis
        by (simp add: loop_step_def)
    qed
  qed
qed

lemma factor_step_mono:
  assumes "factor_step sub inner p \<noteq> Inl OutOfFuel"
    and "\<And>p. sub p \<noteq> Inl OutOfFuel \<Longrightarrow> sub' p = sub p"
    and "\<And>p. inner p \<noteq> Inl OutOfFuel \<Longrightarrow> inner' p = inner p"
  shows "factor_step sub' inner' p = factor_step sub inner p"
proof -
  have unary: "sub' p1 = sub p1"
    if "sub p1 \<noteq> Inl OutOfFuel" for p1
    using assms(2) that by simp
  have paren: "inner' p1 = inner p1"
    if "inner p1 \<noteq> Inl OutOfFuel" for p1
    using assms(3) that by simp
  show ?thesis
  proof (cases "tok_type (current_token p)")
    case MINUS
    show ?thesis
    proof (cases "eat MINUS p")
      case (Inl e)
      with MINUS show ?thesis by (simp add: factor_step_def)
    next
      case (Inr p1)
      with MINUS assms(1) have "sub p1 \<noteq> Inl OutOfFuel"
        by (auto simp: factor_step_def split: sum.splits)
      from unary [OF this] MINUS Inr show ?thesis by (simp add: factor_step_def)
    qed
  next
    case NOT
    show ?thesis
    proof (cases "eat NOT p")
      case (Inl e)
      with NOT show ?thesis by (simp add: factor_step_def)
    next
      case (Inr p1)
      with NOT assms(1) have "sub p1 \<noteq> Inl OutOfFuel"
        by (auto simp: factor_step_def split: sum.splits)
      from unary [OF this] NOT Inr show ?thesis by (simp add: factor_step_def)
    qed
  next
    case LPAREN
    show ?thesis
    proof (cases "eat LPAREN p")
      case (Inl e)
      with LPAREN show ?thesis by (simp add: factor_step_def)
    next
      case (Inr p1)
      with LPAREN assms(1) have "inner p1 \<noteq> Inl OutOfFuel"
        by (auto simp: factor_step_def split: sum.splits)
      from paren [OF this] LPAREN Inr show ?thesis by (simp add: factor_step_def)
    qed
  qed (simp_all add: factor_step_def)
qed

lemma parser_mono_all:
  "(\<forall>p. expr n p \<noteq> Inl OutOfFuel \<longrightarrow> expr (Suc n) p = expr n p) \<and>
   (\<forall>p. logic_or n p \<noteq> Inl OutOfFuel \<longrightarrow> logic_or (Suc n) p = logic_or n p) \<and>
   (\<forall>node p. logic_or_loop n node p \<noteq> Inl OutOfFuel \<longrightarrow> logic_or_loop (Suc n) node p = logic_or_loop n node p) \<and>
   (\<forall>p. logic_and n p \<noteq> Inl OutOfFuel \<longrightarrow> logic_and (Suc n) p = logic_and n p) \<and>
   (\<forall>node p. logic_and_loop n node p \<noteq> Inl OutOfFuel \<longrightarrow> logic_and_loop (Suc n) node p = logic_and_loop n node p) \<and>
   (\<forall>p. equality n p \<noteq> Inl OutOfFuel \<longrightarrow> equality (Suc n) p = equality n p) \<and>
   (\<forall>node p. equality_loop n node p \<noteq> Inl OutOfFuel \<longrightarrow> equality_loop (Suc n) node p = equality_loop n node p) \<and>
   (\<forall>p. comparison n p \<noteq> Inl OutOfFuel \<longrightarrow> comparison (Suc n) p = comparison n p) \<and>
   (\<forall>node p. comparison_loop n node p \<noteq> Inl OutOfFuel \<longrightarrow> comparison_loop (Suc n) node p = comparison_loop n node p) \<and>
   (\<forall>p. additive n p \<noteq> Inl OutOfFuel \<longrightarrow> additive (Suc n) p = additive n p) \<and>
   (\<forall>node p. additive_loop n node p \<noteq> Inl OutOfFuel \<longrightarrow> additive_loop (Suc n) node p = additive_loop n node p) \<and>
   (\<forall>p. term_rule n p \<noteq> Inl OutOfFuel \<longrightarrow> term_rule (Suc n) p = term_rule n p) \<and>
   (\<forall>node p. term_rule_loop n node p \<noteq> Inl OutOfFuel \<longrightarrow> term_rule_loop (Suc n) node p = term_rule_loop n node p) \<and>
   (\<forall>p. factor n p \<noteq> Inl OutOfFuel \<longrightarrow> factor (Suc n) p = factor n p)"
proof (induction n)
  case 0
  show ?case by simp
next
  case (Suc n)
  note ih_expr = Suc.IH [THEN conjunct1, rule_format]
    and ih_logic_or = Suc.IH [THEN conjunct2, THEN conjunct1, rule_format]
    and ih_logic_or_loop = Suc.IH [THEN conjunct2, THEN conjunct2, THEN conjunct1, rule_format]
    and ih_logic_and = Suc.IH [THEN conjunct2, THEN conjunct2, THEN conjunct2, THEN conjunct1, rule_format]
    and ih_logic_and_loop = Suc.IH [THEN conjunct2, THEN conjunct2, THEN conjunct2, THEN conjunct2, THEN conjunct1, rule_format]
    and ih_equality = Suc.IH [THEN conjunct2, THEN conjunct2, THEN conjunct2, THEN conjunct2, THEN conjunct2, THEN conjunct1, rule_format]
    and ih_equality_loop = Suc.IH [THEN conjunct2, THEN conjunct2, THEN conjunct2, THEN conjunct2, THEN conjunct2, THEN conjunct2, THEN conjunct1, rule_format]
    and ih_comparison = Suc.IH [THEN conjunct2, THEN conjunct2, THEN conjunct2, THEN conjunct2, THEN conjunct2, THEN conjunct2, THEN conjunct2, THEN conjunct1, rule_format]
    and ih_comparison_loop = Suc.IH [THEN conjunct2, THEN conjunct2, THEN conjunct2, THEN conjunct2, THEN conjunct2, THEN conjunct2, THEN conjunct2, THEN conjunct2, THEN conjunct1, rule_format]
    and ih_additive = Suc.IH [THEN conjunct2, THEN conjunct2, THEN conjunct2, THEN conjunct2, THEN conjunct2, THEN conjunct2, THEN conjunct2, THEN conjunct2, THEN conjunct2, THEN conjunct1, rule_format]
    and ih_additive_loop = Suc.IH [THEN conjunct2, THEN conjunct2, THEN conjunct2, THEN conjunct2, THEN conjunct2, THEN conjunct2, THEN conjunct2, THEN conjunct2, THEN conjunct2, THEN conjunct2, THEN conjunct1, rule_format]
    and ih_term_rule = Suc.IH [THEN conjunct2, THEN conjunct2, THEN conjunct2, THEN conjunct2, THEN conjunct2, THEN conjunct2, THEN conjunct2, THEN conjunct2, THEN conjunct2, THEN conjunct2, THEN conjunct2, THEN conjunct1, rule_format]
    and ih_term_rule_loop = Suc.IH [THEN conjunct2, THEN conjunct2, THEN conjunct2, THEN conjunct2, THEN conjunct2, THEN conjunct2, THEN conjunct2, THEN conjunct2, THEN conjunct2, THEN conjunct2, THEN conjunct2, THEN conjunct2, THEN conjunct1, rule_format]
    and ih_factor = Suc.IH [THEN conjunct2, THEN conjunct2, THEN conjunct2, THEN conjunct2, THEN conjunct2, THEN conjunct2, THEN conjunct2, THEN conjunct2, THEN conjunct2, THEN conjunct2, THEN conjunct2, THEN conjunct2, THEN conjunct2, rule_format]
  have s_expr: "expr (Suc n) p \<noteq> Inl OutOfFuel \<Longrightarrow> expr (Suc (Suc n)) p = expr (Suc n) p" for p
    using ih_logic_or [of p] by simp
  have s_logic_or: "logic_or (Suc (Suc n)) p = logic_or (Suc n) p"
    if "logic_or (Suc n) p \<noteq> Inl OutOfFuel" for p
  proof -
    have "logic_or (Suc (Suc n)) p = level_step (logic_and (Suc n)) (logic_or_loop (Suc n)) p"
      by (rule logic_or_Suc)
    also have "\<dots> = level_step (logic_and n) (logic_or_loop n) p"
      by (rule level_step_mono [OF that [unfolded logic_or_Suc] ih_logic_and ih_logic_or_loop])
    also have "\<dots> = logic_or (Suc n) p"
      by (rule logic_or_Suc [symmetric])
    finally show ?thesis .
  qed
  have s_logic_or_loop: "logic_or_loop (Suc (Suc n)) node p = logic_or_loop (Suc n) node p"
    if "logic_or_loop (Suc n) node p \<noteq> Inl OutOfFuel" for node p
  proof -
    let ?starts = "\<lambda>token. tok_type token = OR"
    let ?tag = "\<lambda>token. Or"
    have "logic_or_loop (Suc (Suc n)) node p =
        loop_step ?starts ?tag (logic_and (Suc n)) (logic_or_loop (Suc n)) node p"
      by (rule logic_or_loop_Suc)
    also have "\<dots> = loop_step ?starts ?tag (logic_and n) (logic_or_loop n) node p"
      by (rule loop_step_mono [OF that [unfolded logic_or_loop_Suc] ih_logic_and ih_logic_or_loop])
    also have "\<dots> = logic_or_loop (Suc n) node p"
      by (rule logic_or_loop_Suc [symmetric])
    finally show ?thesis .
  qed
  have s_logic_and: "logic_and (Suc (Suc n)) p = logic_and (Suc n) p"
    if "logic_and (Suc n) p \<noteq> Inl OutOfFuel" for p
  proof -
    have "logic_and (Suc (Suc n)) p = level_step (equality (Suc n)) (logic_and_loop (Suc n)) p"
      by (rule logic_and_Suc)
    also have "\<dots> = level_step (equality n) (logic_and_loop n) p"
      by (rule level_step_mono [OF that [unfolded logic_and_Suc] ih_equality ih_logic_and_loop])
    also have "\<dots> = logic_and (Suc n) p"
      by (rule logic_and_Suc [symmetric])
    finally show ?thesis .
  qed
  have s_logic_and_loop: "logic_and_loop (Suc (Suc n)) node p = logic_and_loop (Suc n) node p"
    if "logic_and_loop (Suc n) node p \<noteq> Inl OutOfFuel" for node p
  proof -
    let ?starts = "\<lambda>token. tok_type token = AND"
    let ?tag = "\<lambda>token. And"
    have "logic_and_loop (Suc (Suc n)) node p =
        loop_step ?starts ?tag (equality (Suc n)) (logic_and_loop (Suc n)) node p"
      by (rule logic_and_loop_Suc)
    also have "\<dots> = loop_step ?starts ?tag (equality n) (logic_and_loop n) node p"
      by (rule loop_step_mono [OF that [unfolded logic_and_loop_Suc] ih_equality ih_logic_and_loop])
    also have "\<dots> = logic_and_loop (Suc n) node p"
      by (rule logic_and_loop_Suc [symmetric])
    finally show ?thesis .
  qed
  have s_equality: "equality (Suc (Suc n)) p = equality (Suc n) p"
    if "equality (Suc n) p \<noteq> Inl OutOfFuel" for p
  proof -
    have "equality (Suc (Suc n)) p = level_step (comparison (Suc n)) (equality_loop (Suc n)) p"
      by (rule equality_Suc)
    also have "\<dots> = level_step (comparison n) (equality_loop n) p"
      by (rule level_step_mono [OF that [unfolded equality_Suc] ih_comparison ih_equality_loop])
    also have "\<dots> = equality (Suc n) p"
      by (rule equality_Suc [symmetric])
    finally show ?thesis .
  qed
  have s_equality_loop: "equality_loop (Suc (Suc n)) node p = equality_loop (Suc n) node p"
    if "equality_loop (Suc n) node p \<noteq> Inl OutOfFuel" for node p
  proof -
    let ?starts = "\<lambda>token. tok_type token = EQ \<or> tok_type token = NEQ"
    let ?tag = "\<lambda>token. if tok_type token = EQ then Eq else Neq"
    have "equality_loop (Suc (Suc n)) node p =
        loop_step ?starts ?tag (comparison (Suc n)) (equality_loop (Suc n)) node p"
      by (rule equality_loop_Suc)
    also have "\<dots> = loop_step ?starts ?tag (comparison n) (equality_loop n) node p"
      by (rule loop_step_mono [OF that [unfolded equality_loop_Suc] ih_comparison ih_equality_loop])
    also have "\<dots> = equality_loop (Suc n) node p"
      by (rule equality_loop_Suc [symmetric])
    finally show ?thesis .
  qed
  have s_comparison: "comparison (Suc (Suc n)) p = comparison (Suc n) p"
    if "comparison (Suc n) p \<noteq> Inl OutOfFuel" for p
  proof -
    have "comparison (Suc (Suc n)) p = level_step (additive (Suc n)) (comparison_loop (Suc n)) p"
      by (rule comparison_Suc)
    also have "\<dots> = level_step (additive n) (comparison_loop n) p"
      by (rule level_step_mono [OF that [unfolded comparison_Suc] ih_additive ih_comparison_loop])
    also have "\<dots> = comparison (Suc n) p"
      by (rule comparison_Suc [symmetric])
    finally show ?thesis .
  qed
  have s_comparison_loop: "comparison_loop (Suc (Suc n)) node p = comparison_loop (Suc n) node p"
    if "comparison_loop (Suc n) node p \<noteq> Inl OutOfFuel" for node p
  proof -
    let ?starts = "\<lambda>token. tok_type token = LT \<or> tok_type token = GT \<or> tok_type token = LE \<or> tok_type token = GE"
    let ?tag = "\<lambda>token. if tok_type token = LT then Lt else if tok_type token = GT then Gt
          else if tok_type token = LE then Le else Ge"
    have "comparison_loop (Suc (Suc n)) node p =
        loop_step ?starts ?tag (additive (Suc n)) (comparison_loop (Suc n)) node p"
      by (rule comparison_loop_Suc)
    also have "\<dots> = loop_step ?starts ?tag (additive n) (comparison_loop n) node p"
      by (rule loop_step_mono [OF that [unfolded comparison_loop_Suc] ih_additive ih_comparison_loop])
    also have "\<dots> = comparison_loop (Suc n) node p"
      by (rule comparison_loop_Suc [symmetric])
    finally show ?thesis .
  qed
  have s_additive: "additive (Suc (Suc n)) p = additive (Suc n) p"
    if "additive (Suc n) p \<noteq> Inl OutOfFuel" for p
  proof -
    have "additive (Suc (Suc n)) p = level_step (term_rule (Suc n)) (additive_loop (Suc n)) p"
      by (rule additive_Suc)
    also have "\<dots> = level_step (term_rule n) (additive_loop n) p"
      by (rule level_step_mono [OF that [unfolded additive_Suc] ih_term_rule ih_additive_loop])
    also have "\<dots> = additive (Suc n) p"
      by (rule additive_Suc [symmetric])
    finally show ?thesis .
  qed
  have s_additive_loop: "additive_loop (Suc (Suc n)) node p = additive_loop (Suc n) node p"
    if "additive_loop (Suc n) node p \<noteq> Inl OutOfFuel" for node p
  proof -
    let ?starts = "\<lambda>token. tok_type token = PLUS \<or> tok_type token = MINUS"
    let ?tag = "\<lambda>token. if tok_type token = PLUS then Add else Sub"
    have "additive_loop (Suc (Suc n)) node p =
        loop_step ?starts ?tag (term_rule (Suc n)) (additive_loop (Suc n)) node p"
      by (rule additive_loop_Suc)
    also have "\<dots> = loop_step ?starts ?tag (term_rule n) (additive_loop n) node p"
      by (rule loop_step_mono [OF that [unfolded additive_loop_Suc] ih_term_rule ih_additive_loop])
    also have "\<dots> = additive_loop (Suc n) node p"
      by (rule additive_loop_Suc [symmetric])
    finally show ?thesis .
  qed
  have s_term_rule: "term_rule (Suc (Suc n)) p = term_rule (Suc n) p"
    if "term_rule (Suc n) p \<noteq> Inl OutOfFuel" for p
  proof -
    have "term_rule (Suc (Suc n)) p = level_step (factor (Suc n)) (term_rule_loop (Suc n)) p"
      by (rule term_rule_Suc)
    also have "\<dots> = level_step (factor n) (term_rule_loop n) p"
      by (rule level_step_mono [OF that [unfolded term_rule_Suc] ih_factor ih_term_rule_loop])
    also have "\<dots> = term_rule (Suc n) p"
      by (rule term_rule_Suc [symmetric])
    finally show ?thesis .
  qed
  have s_term_rule_loop: "term_rule_loop (Suc (Suc n)) node p = term_rule_loop (Suc n) node p"
    if "term_rule_loop (Suc n) node p \<noteq> Inl OutOfFuel" for node p
  proof -
    let ?starts = "\<lambda>token. tok_type token = MUL \<or> tok_type token = DIV"
    let ?tag = "\<lambda>token. if tok_type token = MUL then Mul else Div"
    have "term_rule_loop (Suc (Suc n)) node p =
        loop_step ?starts ?tag (factor (Suc n)) (term_rule_loop (Suc n)) node p"
      by (rule term_rule_loop_Suc)
    also have "\<dots> = loop_step ?starts ?tag (factor n) (term_rule_loop n) node p"
      by (rule loop_step_mono [OF that [unfolded term_rule_loop_Suc] ih_factor ih_term_rule_loop])
    also have "\<dots> = term_rule_loop (Suc n) node p"
      by (rule term_rule_loop_Suc [symmetric])
    finally show ?thesis .
  qed
  have s_factor: "factor (Suc (Suc n)) p = factor (Suc n) p"
    if "factor (Suc n) p \<noteq> Inl OutOfFuel" for p
  proof -
    have "factor (Suc (Suc n)) p = factor_step (factor (Suc n)) (expr (Suc n)) p"
      by (rule factor_Suc)
    also have "\<dots> = factor_step (factor n) (expr n) p"
      by (rule factor_step_mono [OF that [unfolded factor_Suc] ih_factor ih_expr])
    also have "\<dots> = factor (Suc n) p"
      by (rule factor_Suc [symmetric])
    finally show ?thesis .
  qed
  show ?case
    by (intro conjI allI impI) (erule s_expr,
      erule s_logic_or,
      erule s_logic_or_loop,
      erule s_logic_and,
      erule s_logic_and_loop,
      erule s_equality,
      erule s_equality_loop,
      erule s_comparison,
      erule s_comparison_loop,
      erule s_additive,
      erule s_additive_loop,
      erule s_term_rule,
      erule s_term_rule_loop,
      erule s_factor)
qed

lemma expr_more_fuel:
  assumes "expr n p \<noteq> Inl OutOfFuel"
  shows "expr (n + k) p = expr n p"
proof (induction k)
  case 0
  show ?case by simp
next
  case (Suc k)
  with assms have "expr (n + k) p \<noteq> Inl OutOfFuel" by simp
  from parser_mono_all [THEN conjunct1, rule_format, OF this] Suc show ?case by simp
qed

lemma expr_fuel_independent:
  assumes "enough_fuel p \<le> n"
  shows "expr n p = expr (enough_fuel p) p"
proof -
  from assms obtain k where "n = enough_fuel p + k"
    using le_Suc_ex by blast
  with expr_more_fuel [OF expr_enough_fuel, of p k] show ?thesis by simp
qed

section \<open>Failing lines\<close>

lemma evaluate_pure: "pure_expr t \<Longrightarrow> snd (evaluate t s) = s"
proof (induction t arbitrary: s)
  case (Leaf v)
  show ?case by (cases v) (simp_all split: option.splits)
next
  case (NegNode t)
  then have "snd (evaluate t s) = s" by simp
  then show ?case by (cases "evaluate t s") (auto split: sum.splits)
next
  case (NotNode t)
  then have "snd (evaluate t s) = s" by simp
  then show ?case by (cases "evaluate t s") (auto split: sum.splits)
next
  case (AssignNode name t)
  then show ?case by simp
next
  case (PrintNode t)
  then show ?case by simp
next
  case (BinOp op left right)
  then have left: "snd (evaluate left s) = s" and right: "snd (evaluate right s) = s"
    by simp_all
  show ?case
  proof (cases "evaluate left s")
    case (Pair r1 s1)
    with left have s1: "s1 = s" by simp
    show ?thesis
    proof (cases "evaluate right s")
      case right_result: (Pair r2 s2)
      with right have "s2 = s" by simp
      with Pair s1 right_result show ?thesis
        by (auto split: sum.splits)
    qed
  qed
qed

lemma parse_shape:
  assumes "parse p = Inr (tree, p1)"
  shows "pure_expr tree
       \<or> (\<exists>name rhs. tree = AssignNode name rhs \<and> pure_expr rhs)
       \<or> (\<exists>arg. tree = PrintNode arg \<and> pure_expr arg)"
proof (cases "tok_type (current_token p) = PRINT")
  case True
  with assms obtain q arg where "expr (enough_fuel q) q = Inr (arg, p1)"
    and "tree = PrintNode arg"
    by (auto simp: parse_def split: sum.splits)
  with expr_pure show ?thesis by blast
next
  case not_print: False
  show ?thesis
  proof (cases "tok_type (current_token p) = IDENTIFIER")
    case True
    with not_print assms obtain q rhs where "expr (enough_fuel q) q = Inr (rhs, p1)"
      and "tree = AssignNode (tok_value (current_token p)) rhs"
      by (auto simp: parse_def Let_def split: sum.splits if_splits)
    with expr_pure show ?thesis by blast
  next
    case False
    with not_print assms have "expr (enough_fuel p) p = Inr (tree, p1)"
      by (simp add: parse_def)
    with expr_pure show ?thesis by blast
  qed
qed

lemma exec_line_failure_state:
  assumes "exec_line line s = (Inl e, s1)"
  shows "s1 = s"
proof (cases "parse_line line")
  case (Inl err)
  with assms show ?thesis by (simp add: exec_line_def)
next
  case (Inr res)
  obtain tree p1 where res: "res = (tree, p1)" by (cases res)
  with Inr assms have run: "evaluate tree s = (Inl e, s1)"
    by (simp add: exec_line_def)
  from Inr res obtain p where "parse p = Inr (tree, p1)"
    by (auto simp: parse_line_def split: sum.splits)
  from parse_shape [OF this] consider
      (expression) "pure_expr tree"
    | (assign) name rhs where "tree = AssignNode name rhs" and "pure_expr rhs"
    | (print) arg where "tree = PrintNode arg" and "pure_expr arg"
    by blast
  then show ?thesis
  proof cases
    case expression
    from evaluate_pure [OF this, of s] run show ?thesis by simp
  next
    case assign
    from evaluate_pure [OF assign(2), of s] run assign(1) show ?thesis
      by (cases "evaluate rhs s") (auto split: sum.splits)
  next
    case print
    from evaluate_pure [OF print(2), of s] run print(1) show ?thesis
      by (cases "evaluate arg s") (auto split: sum.splits)
  qed
qed

text \<open>
  The error \<open>OutOfFuel\<close> of the model is never the outcome of a line: every failure
  is one that the source raises.
\<close>

lemma parse_no_OutOfFuel: "parse p \<noteq> Inl OutOfFuel"
  using eat_no_OutOfFuel expr_enough_fuel
  by (auto simp: parse_def Let_def split: sum.splits)

lemma float_of_int_error: "float_of_int i = Inl e \<Longrightarrow> e = OverflowError"
  by (auto simp: float_of_int_def split: double.splits)

lemma as_float_error: "as_float v = Some (Inl e) \<Longrightarrow> e = OverflowError"
  by (cases v) (auto dest: float_of_int_error)

lemma float_binop_error:
  assumes "float_binop f x y = Inl e"
  shows "x = Inl e \<or> y = Inl e"
  using assms by (auto simp: float_binop_def split: sum.splits)

lemma str_repeat_error: "str_repeat s n = Inl e \<Longrightarrow> e = OverflowError"
  by (auto simp: str_repeat_def split: if_splits)

lemma int_truediv_error:
  "int_truediv a b = Inl e \<Longrightarrow> e = OverflowError \<or> e = ZeroDivisionError"
  by (auto simp: int_truediv_def split: if_splits double.splits)

lemma py_add_error: "py_add l r = Inl e \<Longrightarrow> e = TypeError \<or> e = OverflowError"
  by (auto simp: py_add_def split: option.splits pyval.splits
        dest!: float_binop_error dest: as_float_error)

lemma py_sub_error: "py_sub l r = Inl e \<Longrightarrow> e = TypeError \<or> e = OverflowError"
  by (auto simp: py_sub_def split: option.splits
        dest!: float_binop_error dest: as_float_error)

lemma py_mul_error: "py_mul l r = Inl e \<Longrightarrow> e = TypeError \<or> e = OverflowError"
  by (auto simp: py_mul_def split: option.splits pyval.splits
        dest!: float_binop_error dest: as_float_error str_repeat_error)

lemma py_truediv_error:
  "py_truediv l r = Inl e \<Longrightarrow> e = TypeError \<or> e = OverflowError \<or> e = ZeroDivisionError"
  by (auto simp: py_truediv_def split: option.splits sum.splits
        dest: as_float_error int_truediv_error)

lemma py_compare_error:
  "py_lt l r = Inl e \<Longrightarrow> e = TypeError"
  "py_gt l r = Inl e \<Longrightarrow> e = TypeError"
  "py_le l r = Inl e \<Longrightarrow> e = TypeError"
  "py_ge l r = Inl e \<Longrightarrow> e = TypeError"
  by (auto simp: py_lt_def py_gt_def py_le_def py_ge_def split: option.splits pyval.splits)

lemma apply_binop_error:
  assumes "apply_binop op lval rval = Inl e"
  shows "e = TypeError \<or> e = OverflowError \<or> e = DivisionByZero \<or> e = ZeroDivisionError"
  using assms
  by (cases op)
    (auto simp: apply_binop_def split: if_splits
       dest: py_add_error py_sub_error py_mul_error py_truediv_error py_compare_error)

lemma apply_binop_no_OutOfFuel: "apply_binop op lval rval \<noteq> Inl OutOfFuel"
  using apply_binop_error [of op lval rval OutOfFuel] by auto

lemma evaluate_no_OutOfFuel: "fst (evaluate t s) \<noteq> Inl OutOfFuel"
proof (induction t arbitrary: s)
  case (Leaf v)
  show ?case by (cases v) (simp_all split: option.splits)
next
  case (NegNode t)
  from NegNode [of s] show ?case
    by (cases "evaluate t s") (auto simp: py_neg_def split: sum.splits option.splits pyval.splits)
next
  case (NotNode t)
  from NotNode [of s] show ?case
    by (cases "evaluate t s") (auto split: sum.splits)
next
  case (AssignNode name t)
  from AssignNode [of s] show ?case
    by (cases "evaluate t s") (auto split: sum.splits)
next
  case (PrintNode t)
  from PrintNode [of s] show ?case
    by (cases "evaluate t s") (auto split: sum.splits)
next
  case (BinOp op left right)
  show ?case
  proof (cases "evaluate left s")
    case (Pair r1 s1)
    with BinOp(1) [of s] BinOp(2) [of s1] apply_binop_no_OutOfFuel show ?thesis
      by (cases "evaluate right s1") (auto split: sum.splits)
  qed
qed

lemma exec_line_no_OutOfFuel: "fst (exec_line line s) \<noteq> Inl OutOfFuel"
proof (cases "parse_line line")
  case (Inl e)
  with get_next_token_no_OutOfFuel [of line] parse_no_OutOfFuel show ?thesis
    by (auto simp: exec_line_def parse_line_def Parser_def split: sum.splits)
next
  case (Inr res)
  with evaluate_no_OutOfFuel show ?thesis
    by (cases res) (simp add: exec_line_def)
qed

text \<open>
  Claim C9. When lexing, parsing or evaluating a line raises, the whole state,
  and so \<^verbatim>\<open>global_env\<close>, is as it was before the line: an assignment whose
  right-hand side raises stores nothing. \<^verbatim>\<open>run_file\<close> prints the error line for
  it, and nothing else, and goes on with the next line.
\<close>

theorem failing_line_leaves_environment:
  assumes "exec_line (strip raw) s = (Inl e, s1)" and "strip raw \<noteq> []"
  shows "s1 = s
       \<and> e \<noteq> OutOfFuel
       \<and> run_line raw s = s\<lparr>stdout := stdout s @ [ErrorLine (strip raw) e]\<rparr>
       \<and> global_env (run_line raw s) = global_env s
       \<and> run_file (raw # lines) s = run_file lines (run_line raw s)"
proof -
  from exec_line_failure_state [OF assms(1)] have "s1 = s" .
  moreover from exec_line_no_OutOfFuel [of "strip raw" s] assms(1) have "e \<noteq> OutOfFuel"
    by auto
  ultimately show ?thesis using assms
    by (simp add: run_line_def Let_def)
qed

theorem failing_line_leaves_environment_witness:
  "run_file [''x = 1'', ''x = 2 + (3 / 0)'', ''(x)''] initial_state =
     \<lparr>global_env = [PStr ''x'' \<mapsto> PFloat (Fin 1)],
      stdout = [ErrorLine ''x = 2 + (3 / 0)'' DivisionByZero, Echo ''(x)'' (PFloat (Fin 1))]\<rparr>"
proof -
  let ?s = "\<lparr>global_env = [PStr ''x'' \<mapsto> PFloat (Fin 1)], stdout = []\<rparr>"
  have first: "run_line ''x = 1'' initial_state = ?s"
    by (simp add: run_eval lexer_eval parser_eval evaluator_eval)
  have line: "strip ''x = 2 + (3 / 0)'' = ''x = 2 + (3 / 0)''"
    by (simp add: strip_def isspace_def)
  have fails: "fst (exec_line ''x = 2 + (3 / 0)'' ?s) = Inl DivisionByZero"
    by (simp add: run_eval lexer_eval parser_eval evaluator_eval)
  then obtain s1 where "exec_line (strip ''x = 2 + (3 / 0)'') ?s = (Inl DivisionByZero, s1)"
    unfolding line by (cases "exec_line ''x = 2 + (3 / 0)'' ?s") simp
  from failing_line_leaves_environment [OF this, of "[''(x)'']"] line
  have "run_file [''x = 2 + (3 / 0)'', ''(x)''] ?s =
      run_file [''(x)''] (?s\<lparr>stdout := stdout ?s @ [ErrorLine ''x = 2 + (3 / 0)'' DivisionByZero]\<rparr>)"
    by simp
  also have "\<dots> = \<lparr>global_env = [PStr ''x'' \<mapsto> PFloat (Fin 1)],
      stdout = [ErrorLine ''x = 2 + (3 / 0)'' DivisionByZero, Echo ''(x)'' (PFloat (Fin 1))]\<rparr>"
    by (simp add: run_eval lexer_eval parser_eval evaluator_eval)
  finally show ?thesis using first by simp
qed

end
